theory Spec2Isabelle
  imports Complex_Main "HOL-Library.Word" "HOL-Library.Multiset"
begin

section \<open>Python values\<close>

text \<open>
  A Python \<open>str\<close> is a sequence of Unicode code points, so it is modelled as a list of
  naturals.  ASCII literals of the source are written with \<open>cps\<close>; other literals are
  written as their code points.  Python \<open>float\<close>s are modelled by exact rationals: the
  scores of this development are quotients of small integers and of the weights \<open>0.9\<close>
  and \<open>1.0\<close>, and every theorem below is a statement of exact arithmetic about them.
\<close>

type_synonym pystr = "nat list"

definition cps :: "string \<Rightarrow> pystr" where
  "cps s = map of_char s"

datatype py_error = ValueError | KeyError

text \<open>
  The Unicode character database of the interpreter is not part of the repository.  It
  is a parameter of every function that consults it: \<open>str_lower\<close> is \<open>str.lower\<close>,
  \<open>ch_lower\<close> and \<open>ch_upper\<close> are the per-character case mappings that the \<open>re\<close>
  module uses under \<open>re.IGNORECASE\<close>, \<open>is_alnum\<close> is \<open>str.isalnum\<close> on one character
  (the basis of \<open>\w\<close> and \<open>\b\<close>) and \<open>is_decimal\<close> is the class \<open>\d\<close>.
\<close>

record unicode_db =
  str_lower :: "pystr \<Rightarrow> pystr"
  ch_lower :: "nat \<Rightarrow> nat"
  ch_upper :: "nat \<Rightarrow> nat"
  is_alnum :: "nat \<Rightarrow> bool"
  is_decimal :: "nat \<Rightarrow> bool"

text \<open>A concrete database that agrees with the interpreter on ASCII text.\<close>

definition ascii_lower :: "nat \<Rightarrow> nat" where
  "ascii_lower c = (if 65 \<le> c \<and> c \<le> 90 then c + 32 else c)"

definition ascii_upper :: "nat \<Rightarrow> nat" where
  "ascii_upper c = (if 97 \<le> c \<and> c \<le> 122 then c - 32 else c)"

definition ascii_alnum :: "nat \<Rightarrow> bool" where
  "ascii_alnum c = ((48 \<le> c \<and> c \<le> 57) \<or> (65 \<le> c \<and> c \<le> 90) \<or> (97 \<le> c \<and> c \<le> 122))"

definition ascii_decimal :: "nat \<Rightarrow> bool" where
  "ascii_decimal c = (48 \<le> c \<and> c \<le> 57)"

definition ascii_db :: unicode_db where
  "ascii_db = \<lparr> str_lower = map ascii_lower, ch_lower = ascii_lower, ch_upper = ascii_upper,
                is_alnum = ascii_alnum, is_decimal = ascii_decimal \<rparr>"

text \<open>
  \<open>str.isspace\<close> on one character; \<open>str.strip\<close> and the class \<open>\s\<close> use the same
  finite table.
\<close>

definition is_space :: "nat \<Rightarrow> bool" where
  "is_space c = ((0x9 \<le> c \<and> c \<le> 0xD) \<or> (0x1C \<le> c \<and> c \<le> 0x20) \<or> c = 0x85 \<or> c = 0xA0
     \<or> c = 0x1680 \<or> (0x2000 \<le> c \<and> c \<le> 0x200A) \<or> c = 0x2028 \<or> c = 0x2029
     \<or> c = 0x202F \<or> c = 0x205F \<or> c = 0x3000)"

definition strip :: "pystr \<Rightarrow> pystr" where
  "strip s = rev (dropWhile is_space (rev (dropWhile is_space s)))"

text \<open>The operator \<open>in\<close> on strings: \<open>contains xs ys\<close> is \<open>xs in ys\<close>.\<close>

fun starts_with :: "pystr \<Rightarrow> pystr \<Rightarrow> bool" where
  "starts_with [] ys = True"
| "starts_with (x # xs) [] = False"
| "starts_with (x # xs) (y # ys) = (x = y \<and> starts_with xs ys)"

fun contains :: "pystr \<Rightarrow> pystr \<Rightarrow> bool" where
  "contains xs [] = (xs = [])"
| "contains xs (y # ys) = (starts_with xs (y # ys) \<or> contains xs ys)"

text \<open>
  A \<open>dict\<close> keeps its keys in insertion order, and \<open>max\<close> and \<open>sorted\<close> below depend on
  that order, so a dict is an association list: assigning to a key that is present
  replaces the value in place, assigning to a new key appends.
\<close>

fun dict_set :: "'k \<Rightarrow> 'v \<Rightarrow> ('k \<times> 'v) list \<Rightarrow> ('k \<times> 'v) list" where
  "dict_set k v [] = [(k, v)]"
| "dict_set k v ((k', v') # d) = (if k' = k then (k, v) # d else (k', v') # dict_set k v d)"

definition dict_get :: "('k \<times> 'v) list \<Rightarrow> 'k \<Rightarrow> 'v \<Rightarrow> 'v" where
  "dict_get d k dflt = (case map_of d k of None \<Rightarrow> dflt | Some v \<Rightarrow> v)"

section \<open>Regular expressions\<close>

text \<open>
  The patterns of the source use literals, character classes, \<open>.\<close>, \<open>\b\<close>,
  concatenation, alternation, the greedy \<open>*\<close>, \<open>+\<close> and \<open>?\<close>, the lazy \<open>*?\<close> and
  groups.  \<open>Plus\<close> and \<open>Opt\<close> are derived forms.
\<close>

datatype citem = CChar nat | CRange nat nat | CWord | CDigit | CSpace

datatype regex =
    Lit nat
  | Cls bool "citem list"
  | AnyCh
  | Eps
  | Bound
  | Seq regex regex
  | Alt regex regex
  | Star regex
  | Lazy regex
  | Grp regex

definition Plus :: "regex \<Rightarrow> regex" where
  "Plus r = Seq r (Star r)"

definition Opt :: "regex \<Rightarrow> regex" where
  "Opt r = Alt r Eps"

definition rseq :: "regex list \<Rightarrow> regex" where
  "rseq rs = foldr Seq rs Eps"

text \<open>\<open>lits s\<close> is the pattern \<open>re.escape(s)\<close>: it matches \<open>s\<close> literally.\<close>

definition lits :: "pystr \<Rightarrow> regex" where
  "lits s = rseq (map Lit s)"

definition str :: "string \<Rightarrow> regex" where
  "str s = lits (cps s)"

definition ch :: "char \<Rightarrow> regex" where
  "ch c = Lit (of_char c)"

definition Sp :: regex where
  "Sp = Cls False [CSpace]"

definition Wd :: regex where
  "Wd = Cls False [CWord]"

definition Dg :: regex where
  "Dg = Cls False [CDigit]"

definition is_word :: "unicode_db \<Rightarrow> nat \<Rightarrow> bool" where
  "is_word U c = (is_alnum U c \<or> c = 95)"

text \<open>
  Membership of a character in one item of a class.  Under \<open>re.IGNORECASE\<close> (\<open>ic\<close>) the
  character arrives lower-cased, a literal item is compared lower-cased and a range also
  accepts the upper-case form of the character.
\<close>

fun item_match :: "unicode_db \<Rightarrow> bool \<Rightarrow> nat \<Rightarrow> citem \<Rightarrow> bool" where
  "item_match U ic c (CChar x) = (c = (if ic then ch_lower U x else x))"
| "item_match U ic c (CRange a b) = ((a \<le> c \<and> c \<le> b) \<or> (ic \<and> a \<le> ch_upper U c \<and> ch_upper U c \<le> b))"
| "item_match U ic c CWord = is_word U c"
| "item_match U ic c CDigit = is_decimal U c"
| "item_match U ic c CSpace = is_space c"

definition cls_match :: "unicode_db \<Rightarrow> bool \<Rightarrow> bool \<Rightarrow> citem list \<Rightarrow> nat \<Rightarrow> bool" where
  "cls_match U ic neg items c =
     (let c' = (if ic then ch_lower U c else c)
      in list_ex (item_match U ic c') items \<noteq> neg)"

definition lit_match :: "unicode_db \<Rightarrow> bool \<Rightarrow> nat \<Rightarrow> nat \<Rightarrow> bool" where
  "lit_match U ic x c = (if ic then ch_lower U c = ch_lower U x else c = x)"

text \<open>\<open>\b\<close>: exactly one of the characters before and after the position is a word character.\<close>

definition at_boundary :: "unicode_db \<Rightarrow> pystr \<Rightarrow> nat \<Rightarrow> bool" where
  "at_boundary U s i =
     ((0 < i \<and> i \<le> length s \<and> is_word U (s ! (i - 1))) \<noteq> (i < length s \<and> is_word U (s ! i)))"

text \<open>
  A matcher state is the current position and the span of the group closed last.
  \<open>run U ic s r st\<close> lists, in the order in which the backtracking matcher of \<open>re\<close> tries
  them, the states in which a match of \<open>r\<close> started in \<open>st\<close> can end; the head of the list
  is what \<open>re\<close> reports.  A repetition only repeats after an iteration that consumed input.
\<close>

type_synonym mstate = "nat \<times> (nat \<times> nat) option"

function run :: "unicode_db \<Rightarrow> bool \<Rightarrow> pystr \<Rightarrow> regex \<Rightarrow> mstate \<Rightarrow> mstate list" where
  "run U ic s (Lit x) (i, g) = (if i < length s \<and> lit_match U ic x (s ! i) then [(Suc i, g)] else [])"
| "run U ic s (Cls neg items) (i, g) =
     (if i < length s \<and> cls_match U ic neg items (s ! i) then [(Suc i, g)] else [])"
| "run U ic s AnyCh (i, g) = (if i < length s \<and> s ! i \<noteq> 10 then [(Suc i, g)] else [])"
| "run U ic s Eps (i, g) = [(i, g)]"
| "run U ic s Bound (i, g) = (if at_boundary U s i then [(i, g)] else [])"
| "run U ic s (Seq r1 r2) (i, g) = concat (map (run U ic s r2) (run U ic s r1 (i, g)))"
| "run U ic s (Alt r1 r2) (i, g) = run U ic s r1 (i, g) @ run U ic s r2 (i, g)"
| "run U ic s (Star r) (i, g) =
     concat (map (run U ic s (Star r))
               (filter (\<lambda>(j, _). i < j \<and> j \<le> length s) (run U ic s r (i, g)))) @ [(i, g)]"
| "run U ic s (Lazy r) (i, g) =
     (i, g) # concat (map (run U ic s (Lazy r))
                        (filter (\<lambda>(j, _). i < j \<and> j \<le> length s) (run U ic s r (i, g))))"
| "run U ic s (Grp r) (i, g) = map (\<lambda>(j, _). (j, Some (i, j))) (run U ic s r (i, g))"
  by pat_completeness auto
termination
  by (relation "inv_image (measure size <*lex*> measure id)
                  (\<lambda>(U, ic, s, r, (i, g)). (r, length s - i))") auto

text \<open>
  \<open>re.search\<close>: the leftmost start position with a match, and the first match there.
  The result is the start position and the final matcher state.
\<close>

function search_from :: "unicode_db \<Rightarrow> bool \<Rightarrow> regex \<Rightarrow> pystr \<Rightarrow> nat \<Rightarrow> (nat \<times> mstate) option" where
  "search_from U ic r s i =
     (case run U ic s r (i, None) of
        m # _ \<Rightarrow> Some (i, m)
      | [] \<Rightarrow> if i < length s then search_from U ic r s (Suc i) else None)"
  by pat_completeness auto
termination
  by (relation "measure (\<lambda>(U, ic, r, s, i). length s - i)") auto

definition re_search :: "unicode_db \<Rightarrow> bool \<Rightarrow> regex \<Rightarrow> pystr \<Rightarrow> (nat \<times> mstate) option" where
  "re_search U ic r s = search_from U ic r s 0"

definition re_matches :: "unicode_db \<Rightarrow> bool \<Rightarrow> regex \<Rightarrow> pystr \<Rightarrow> bool" where
  "re_matches U ic r s = (re_search U ic r s \<noteq> None)"

text \<open>\<open>match.group(1)\<close> of a successful search whose group took part in the match.\<close>

definition group1 :: "pystr \<Rightarrow> nat \<times> mstate \<Rightarrow> pystr" where
  "group1 s m = (case snd (snd m) of None \<Rightarrow> [] | Some (a, b) \<Rightarrow> take (b - a) (drop a s))"

text \<open>
  \<open>len(re.findall(...))\<close>: the number of successive non-overlapping matches, each search
  resuming where the previous match ended (one character further after an empty match).
\<close>

function count_from :: "unicode_db \<Rightarrow> bool \<Rightarrow> regex \<Rightarrow> pystr \<Rightarrow> nat \<Rightarrow> nat" where
  "count_from U ic r s i =
     (if length s < i then 0
      else case run U ic s r (i, None) of
             (e, _) # _ \<Rightarrow> Suc (count_from U ic r s (if i < e then e else Suc i))
           | [] \<Rightarrow> count_from U ic r s (Suc i))"
  by pat_completeness auto
termination
  by (relation "measure (\<lambda>(U, ic, r, s, i). Suc (length s) - i)") auto

definition findall_count :: "unicode_db \<Rightarrow> bool \<Rightarrow> regex \<Rightarrow> pystr \<Rightarrow> nat" where
  "findall_count U ic r s = count_from U ic r s 0"

declare run.simps(8) [simp del]
declare run.simps(9) [simp del]
declare search_from.simps [simp del]
declare count_from.simps [simp del]

section \<open>Document classification (core/document_classifier.py)\<close>

datatype DocumentType =
    INVOICE | RECEIPT | CONTRACT | FORM | LETTER | REPORT | ID_DOCUMENT
  | BANK_STATEMENT | TAX_DOCUMENT | MEDICAL | UNKNOWN

text \<open>The value of an enumeration member, and the lookup \<open>DocumentType(value)\<close>.\<close>

fun DocumentType_value :: "DocumentType \<Rightarrow> string" where
  "DocumentType_value INVOICE = ''invoice''"
| "DocumentType_value RECEIPT = ''receipt''"
| "DocumentType_value CONTRACT = ''contract''"
| "DocumentType_value FORM = ''form''"
| "DocumentType_value LETTER = ''letter''"
| "DocumentType_value REPORT = ''report''"
| "DocumentType_value ID_DOCUMENT = ''id_document''"
| "DocumentType_value BANK_STATEMENT = ''bank_statement''"
| "DocumentType_value TAX_DOCUMENT = ''tax_document''"
| "DocumentType_value MEDICAL = ''medical''"
| "DocumentType_value UNKNOWN = ''unknown''"

definition DocumentType_members :: "DocumentType list" where
  "DocumentType_members = [INVOICE, RECEIPT, CONTRACT, FORM, LETTER, REPORT, ID_DOCUMENT,
     BANK_STATEMENT, TAX_DOCUMENT, MEDICAL, UNKNOWN]"

definition DocumentType_of :: "string \<Rightarrow> py_error + DocumentType" where
  "DocumentType_of v =
     (case find (\<lambda>t. DocumentType_value t = v) DocumentType_members of
        None \<Rightarrow> Inl ValueError
      | Some t \<Rightarrow> Inr t)"

record ClassificationResult =
  document_type :: DocumentType
  confidence :: rat
  all_scores :: "(string \<times> rat) list"
  keywords_found :: "pystr list"

record config =
  cfg_keywords :: "pystr list"
  cfg_patterns :: "regex list"
  cfg_weight :: rat

text \<open>
  \<open>_build_patterns\<close>: the table of the classifier, in the order of the dict literal.
  Each pattern is given with its source text.
\<close>

definition build_patterns :: "(DocumentType \<times> config) list" where
  \<open>build_patterns = [
     (INVOICE, \<lparr>
        cfg_keywords = map cps [''invoice'', ''bill to'', ''ship to'', ''invoice number'',
          ''invoice date'', ''due date'', ''payment terms'', ''subtotal'', ''tax'',
          ''total due'', ''remit to'', ''purchase order'', ''qty'', ''unit price'',
          ''amount due''],
        cfg_patterns = [
          \<comment> \<open>\<^verbatim>\<open>invoice\s*#?\s*:?\s*\w+\<close>\<close>
          rseq [str ''invoice'', Star Sp, Opt (ch CHR ''#''), Star Sp, Opt (ch CHR '':''), Star Sp, Plus Wd],
          \<comment> \<open>\<^verbatim>\<open>inv\s*-?\s*\d+\<close>\<close>
          rseq [str ''inv'', Star Sp, Opt (ch CHR ''-''), Star Sp, Plus Dg],
          \<comment> \<open>\<^verbatim>\<open>bill\s+to\s*:\<close>\<close>
          rseq [str ''bill'', Plus Sp, str ''to'', Star Sp, ch CHR '':''],
          \<comment> \<open>\<^verbatim>\<open>payment\s+due\<close>\<close>
          rseq [str ''payment'', Plus Sp, str ''due''],
          \<comment> \<open>\<^verbatim>\<open>total\s+amount\s*:?\s*\$?\<close>\<close>
          rseq [str ''total'', Plus Sp, str ''amount'', Star Sp, Opt (ch CHR '':''), Star Sp, Opt (ch CHR ''$'')]],
        cfg_weight = 1 \<rparr>),
     (RECEIPT, \<lparr>
        cfg_keywords = map cps [''receipt'', ''transaction'', ''paid'', ''cash'', ''credit card'',
          ''change'', ''subtotal'', ''tax'', ''total'', ''thank you'', ''store'', ''cashier'',
          ''items''],
        cfg_patterns = [
          \<comment> \<open>\<^verbatim>\<open>receipt\s*#?\s*:?\s*\w+\<close>\<close>
          rseq [str ''receipt'', Star Sp, Opt (ch CHR ''#''), Star Sp, Opt (ch CHR '':''), Star Sp, Plus Wd],
          \<comment> \<open>\<^verbatim>\<open>transaction\s*id\<close>\<close>
          rseq [str ''transaction'', Star Sp, str ''id''],
          \<comment> \<open>\<^verbatim>\<open>paid\s+by\<close>\<close>
          rseq [str ''paid'', Plus Sp, str ''by''],
          \<comment> \<open>\<^verbatim>\<open>change\s*:?\s*\$?\d+\<close>\<close>
          rseq [str ''change'', Star Sp, Opt (ch CHR '':''), Star Sp, Opt (ch CHR ''$''), Plus Dg]],
        cfg_weight = 1 \<rparr>),
     (CONTRACT, \<lparr>
        cfg_keywords = map cps [''agreement'', ''contract'', ''terms and conditions'', ''party'',
          ''whereas'', ''hereby'', ''witnesseth'', ''covenant'', ''binding'', ''executed'',
          ''signature'', ''effective date'', ''termination''],
        cfg_patterns = [
          \<comment> \<open>\<^verbatim>\<open>this\s+agreement\<close>\<close>
          rseq [str ''this'', Plus Sp, str ''agreement''],
          \<comment> \<open>\<^verbatim>\<open>parties\s+agree\<close>\<close>
          rseq [str ''parties'', Plus Sp, str ''agree''],
          \<comment> \<open>\<^verbatim>\<open>terms\s+and\s+conditions\<close>\<close>
          rseq [str ''terms'', Plus Sp, str ''and'', Plus Sp, str ''conditions''],
          \<comment> \<open>\<^verbatim>\<open>binding\s+agreement\<close>\<close>
          rseq [str ''binding'', Plus Sp, str ''agreement'']],
        cfg_weight = 1 \<rparr>),
     (FORM, \<lparr>
        cfg_keywords = map cps [''form'', ''application'', ''please fill'', ''required fields'',
          ''checkbox'', ''select'', ''signature required'', ''date of birth'', ''applicant'',
          ''submit''],
        cfg_patterns = [
          \<comment> \<open>\<^verbatim>\<open>form\s*#?\s*:?\s*\w+\<close>\<close>
          rseq [str ''form'', Star Sp, Opt (ch CHR ''#''), Star Sp, Opt (ch CHR '':''), Star Sp, Plus Wd],
          \<comment> \<open>\<^verbatim>\<open>please\s+(fill|complete)\<close>\<close>
          rseq [str ''please'', Plus Sp, Grp (Alt (str ''fill'') (str ''complete''))],
          \<comment> \<open>\<^verbatim>\<open>\[\s*\]\<close>\<close>
          rseq [ch CHR ''['', Star Sp, ch CHR '']''],
          \<comment> \<open>\<^verbatim>\<open>_+\s*\(.*?\)\<close>\<close>
          rseq [Plus (ch CHR ''_''), Star Sp, ch CHR ''('', Lazy AnyCh, ch CHR '')'']],
        cfg_weight = 1 \<rparr>),
     (LETTER, \<lparr>
        cfg_keywords = map cps [''dear'', ''sincerely'', ''regards'', ''yours truly'', ''to whom'',
          ''attention'', ''re:'', ''subject:'', ''enclosed''],
        cfg_patterns = [
          \<comment> \<open>\<^verbatim>\<open>dear\s+\w+\<close>\<close>
          rseq [str ''dear'', Plus Sp, Plus Wd],
          \<comment> \<open>\<^verbatim>\<open>sincerely\s*,\<close>\<close>
          rseq [str ''sincerely'', Star Sp, ch CHR '',''],
          \<comment> \<open>\<^verbatim>\<open>regards\s*,\<close>\<close>
          rseq [str ''regards'', Star Sp, ch CHR '',''],
          \<comment> \<open>\<^verbatim>\<open>to\s+whom\s+it\s+may\s+concern\<close>\<close>
          rseq [str ''to'', Plus Sp, str ''whom'', Plus Sp, str ''it'', Plus Sp, str ''may'', Plus Sp,
                str ''concern'']],
        cfg_weight = 9 / 10 \<rparr>),
     (REPORT, \<lparr>
        cfg_keywords = map cps [''report'', ''summary'', ''analysis'', ''findings'', ''conclusion'',
          ''executive summary'', ''methodology'', ''results'', ''recommendations''],
        cfg_patterns = [
          \<comment> \<open>\<^verbatim>\<open>executive\s+summary\<close>\<close>
          rseq [str ''executive'', Plus Sp, str ''summary''],
          \<comment> \<open>\<^verbatim>\<open>table\s+of\s+contents\<close>\<close>
          rseq [str ''table'', Plus Sp, str ''of'', Plus Sp, str ''contents''],
          \<comment> \<open>\<^verbatim>\<open>section\s+\d+\<close>\<close>
          rseq [str ''section'', Plus Sp, Plus Dg],
          \<comment> \<open>\<^verbatim>\<open>figure\s+\d+\<close>\<close>
          rseq [str ''figure'', Plus Sp, Plus Dg]],
        cfg_weight = 9 / 10 \<rparr>),
     (ID_DOCUMENT, \<lparr>
        cfg_keywords = map cps [''passport'', ''driver license'', ''identification'', ''id card'',
          ''date of birth'', ''expiry'', ''nationality'', ''sex'', ''height''],
        cfg_patterns = [
          \<comment> \<open>\<^verbatim>\<open>passport\s*no\<close>\<close>
          rseq [str ''passport'', Star Sp, str ''no''],
          \<comment> \<open>\<^verbatim>\<open>license\s*#\<close>\<close>
          rseq [str ''license'', Star Sp, ch CHR ''#''],
          \<comment> \<open>\<^verbatim>\<open>date\s+of\s+birth\<close>\<close>
          rseq [str ''date'', Plus Sp, str ''of'', Plus Sp, str ''birth''],
          \<comment> \<open>\<^verbatim>\<open>expir(y|ation)\s+date\<close>\<close>
          rseq [str ''expir'', Grp (Alt (str ''y'') (str ''ation'')), Plus Sp, str ''date'']],
        cfg_weight = 1 \<rparr>),
     (BANK_STATEMENT, \<lparr>
        cfg_keywords = map cps [''statement'', ''account'', ''balance'', ''deposit'', ''withdrawal'',
          ''transaction'', ''opening balance'', ''closing balance'', ''interest''],
        cfg_patterns = [
          \<comment> \<open>\<^verbatim>\<open>account\s*(number|#)\<close>\<close>
          rseq [str ''account'', Star Sp, Grp (Alt (str ''number'') (ch CHR ''#''))],
          \<comment> \<open>\<^verbatim>\<open>statement\s+period\<close>\<close>
          rseq [str ''statement'', Plus Sp, str ''period''],
          \<comment> \<open>\<^verbatim>\<open>opening\s+balance\<close>\<close>
          rseq [str ''opening'', Plus Sp, str ''balance''],
          \<comment> \<open>\<^verbatim>\<open>closing\s+balance\<close>\<close>
          rseq [str ''closing'', Plus Sp, str ''balance'']],
        cfg_weight = 1 \<rparr>),
     (TAX_DOCUMENT, \<lparr>
        cfg_keywords = map cps [''tax'', ''w-2'', ''1099'', ''irs'', ''income'', ''deduction'',
          ''federal'', ''state'', ''employer'', ''wages'', ''withholding''],
        cfg_patterns = [
          \<comment> \<open>\<^verbatim>\<open>form\s+w-?2\<close>\<close>
          rseq [str ''form'', Plus Sp, str ''w'', Opt (ch CHR ''-''), str ''2''],
          \<comment> \<open>\<^verbatim>\<open>form\s+1099\<close>\<close>
          rseq [str ''form'', Plus Sp, str ''1099''],
          \<comment> \<open>\<^verbatim>\<open>tax\s+year\<close>\<close>
          rseq [str ''tax'', Plus Sp, str ''year''],
          \<comment> \<open>\<^verbatim>\<open>taxable\s+income\<close>\<close>
          rseq [str ''taxable'', Plus Sp, str ''income'']],
        cfg_weight = 1 \<rparr>),
     (MEDICAL, \<lparr>
        cfg_keywords = map cps [''patient'', ''diagnosis'', ''prescription'', ''medication'',
          ''doctor'', ''physician'', ''hospital'', ''clinic'', ''medical'', ''treatment'',
          ''dosage'', ''symptoms''],
        cfg_patterns = [
          \<comment> \<open>\<^verbatim>\<open>patient\s+(name|id)\<close>\<close>
          rseq [str ''patient'', Plus Sp, Grp (Alt (str ''name'') (str ''id''))],
          \<comment> \<open>\<^verbatim>\<open>date\s+of\s+service\<close>\<close>
          rseq [str ''date'', Plus Sp, str ''of'', Plus Sp, str ''service''],
          \<comment> \<open>\<^verbatim>\<open>diagnosis\s*:\<close>\<close>
          rseq [str ''diagnosis'', Star Sp, ch CHR '':''],
          \<comment> \<open>\<^verbatim>\<open>rx\s*:\<close>\<close>
          rseq [str ''rx'', Star Sp, ch CHR '':'']],
        cfg_weight = 1 \<rparr>)]\<close>

text \<open>The two inner iterations of \<open>classify\<close>: keywords (+1 each), then patterns (+2 each).\<close>

definition score_keywords :: "unicode_db \<Rightarrow> pystr \<Rightarrow> pystr list \<Rightarrow> rat \<times> pystr list" where
  "score_keywords U text_lower kws =
     fold (\<lambda>keyword (score, found_keywords).
             if contains (str_lower U keyword) text_lower
             then (score + 1, found_keywords @ [keyword])
             else (score, found_keywords))
          kws (0, [])"

definition score_patterns :: "unicode_db \<Rightarrow> pystr \<Rightarrow> regex list \<Rightarrow> rat \<Rightarrow> rat" where
  "score_patterns U text_lower pats score0 =
     fold (\<lambda>pattern score. if re_matches U False pattern text_lower then score + 2 else score)
          pats score0"

text \<open>The body of the loop over the table, for one type: the normalized score and the cfg_keywords found.\<close>

definition score_type :: "unicode_db \<Rightarrow> pystr \<Rightarrow> config \<Rightarrow> rat \<times> pystr list" where
  "score_type U text_lower cfg =
     (let (score, found_keywords) = score_keywords U text_lower (cfg_keywords cfg);
          score = score_patterns U text_lower (cfg_patterns cfg) score;
          score = score * cfg_weight cfg;
          max_score = length (cfg_keywords cfg) + length (cfg_patterns cfg) * 2;
          normalized_score = (if max_score > 0 then score / of_nat max_score else 0)
      in (normalized_score, found_keywords))"

definition score_all ::
  "unicode_db \<Rightarrow> (DocumentType \<times> config) list \<Rightarrow> pystr
     \<Rightarrow> (string \<times> rat) list \<times> (string \<times> pystr list) list" where
  "score_all U pats text_lower =
     fold (\<lambda>(doc_type, cfg) (scores, keywords_found).
             let (normalized_score, found_keywords) = score_type U text_lower cfg
             in (dict_set (DocumentType_value doc_type) normalized_score scores,
                 dict_set (DocumentType_value doc_type) found_keywords keywords_found))
          pats ([], [])"

text \<open>
  \<open>max(scores, key=scores.get)\<close>: the keys are visited in dict order and a later key
  replaces the best one only when its value is strictly greater; on an empty dict \<open>max\<close>
  raises \<open>ValueError\<close>.  The value of each visited key is the one stored with it.
\<close>

fun max_from :: "('k \<times> 'v::linorder) \<Rightarrow> ('k \<times> 'v) list \<Rightarrow> 'k" where
  "max_from (bk, bv) [] = bk"
| "max_from (bk, bv) ((k, v) # d) = (if bv < v then max_from (k, v) d else max_from (bk, bv) d)"

fun py_max_key :: "('k \<times> 'v::linorder) list \<Rightarrow> py_error + 'k" where
  "py_max_key [] = Inl ValueError"
| "py_max_key (kv # d) = Inr (max_from kv d)"

definition classify_with ::
  "unicode_db \<Rightarrow> (DocumentType \<times> config) list \<Rightarrow> pystr \<Rightarrow> py_error + ClassificationResult" where
  "classify_with U pats txt =
     (let text_lower = str_lower U txt;
          (scores, keywords_found) = score_all U pats text_lower
      in if scores \<noteq> [] then
           (case py_max_key scores of
              Inl e \<Rightarrow> Inl e
            | Inr best_type \<Rightarrow>
               (case map_of scores best_type of
                  None \<Rightarrow> Inl KeyError
                | Some best_score \<Rightarrow>
                   if best_score < 1 / 10 then
                     Inr \<lparr> document_type = UNKNOWN, confidence = 0, all_scores = scores,
                           keywords_found = [] \<rparr>
                   else
                     (case DocumentType_of best_type of
                        Inl e \<Rightarrow> Inl e
                      | Inr t \<Rightarrow>
                         Inr \<lparr> document_type = t, confidence = min (best_score * 2) 1,
                               all_scores = scores,
                               keywords_found = dict_get keywords_found best_type [] \<rparr>)))
         else Inr \<lparr> document_type = UNKNOWN, confidence = 0, all_scores = [],
                    keywords_found = [] \<rparr>)"

text \<open>\<open>DocumentClassifier.classify\<close>, with \<open>self._patterns\<close> as built by the constructor.\<close>

definition classify :: "unicode_db \<Rightarrow> pystr \<Rightarrow> py_error + ClassificationResult" where
  "classify U txt = classify_with U build_patterns txt"

text \<open>
  The notions the statements about \<open>classify\<close> are phrased in.

  \<open>normalized_scores U txt\<close> lists every type of the table with its normalized score for
  the text, in table order; \<open>scores_dict\<close> turns such a list into the dict keyed by the
  values of the types.  \<open>best_score\<close> is the greatest of these scores.

  \<open>first_highest\<close> is the first entry of a list of scored keys whose score no entry
  exceeds: the key with the highest score, the first-listed one among equals.
  \<open>highest_type\<close> is that type for a text, and \<open>returns_highest_type\<close> says that
  \<open>classify\<close> returns it.

  \<open>keyword_hits\<close> is the number of keywords of a type that occur in the lower-cased
  text, \<open>pattern_hits\<close> the number of its patterns found there; \<open>raw_hits\<close> is their
  weighted sum as the two scoring iterations compute it.
\<close>

definition first_highest :: "('k \<times> 'v::linorder) list \<Rightarrow> ('k \<times> 'v) option" where
  "first_highest xs = find (\<lambda>(k, v). list_all (\<lambda>(k', v'). v' \<le> v) xs) xs"

definition nscores ::
  "unicode_db \<Rightarrow> (DocumentType \<times> config) list \<Rightarrow> pystr \<Rightarrow> (DocumentType \<times> rat) list" where
  "nscores U pats txt = map (\<lambda>(t, c). (t, fst (score_type U (str_lower U txt) c))) pats"

definition normalized_scores :: "unicode_db \<Rightarrow> pystr \<Rightarrow> (DocumentType \<times> rat) list" where
  "normalized_scores U txt = nscores U build_patterns txt"

definition scores_dict :: "(DocumentType \<times> rat) list \<Rightarrow> (string \<times> rat) list" where
  "scores_dict xs = map (\<lambda>(t, v). (DocumentType_value t, v)) xs"

definition best_score :: "unicode_db \<Rightarrow> pystr \<Rightarrow> rat" where
  "best_score U txt = Max (snd ` set (normalized_scores U txt))"

definition highest_type :: "unicode_db \<Rightarrow> pystr \<Rightarrow> DocumentType option" where
  "highest_type U txt = map_option fst (first_highest (normalized_scores U txt))"

definition returns_highest_type :: "unicode_db \<Rightarrow> pystr \<Rightarrow> bool" where
  "returns_highest_type U txt =
     (case classify U txt of
        Inl e \<Rightarrow> False
      | Inr r \<Rightarrow> highest_type U txt = Some (document_type r))"

definition keyword_hits :: "unicode_db \<Rightarrow> pystr \<Rightarrow> config \<Rightarrow> nat" where
  "keyword_hits U txt cfg =
     card {k \<in> set (cfg_keywords cfg). contains (str_lower U k) (str_lower U txt)}"

definition pattern_hits :: "unicode_db \<Rightarrow> pystr \<Rightarrow> config \<Rightarrow> nat" where
  "pattern_hits U txt cfg =
     card {p \<in> set (cfg_patterns cfg). re_matches U False p (str_lower U txt)}"

definition raw_hits :: "unicode_db \<Rightarrow> pystr \<Rightarrow> config \<Rightarrow> nat" where
  "raw_hits U tx cfg =
     length (filter (\<lambda>k. contains (str_lower U k) tx) (cfg_keywords cfg))
       + 2 * length (filter (\<lambda>p. re_matches U False p tx) (cfg_patterns cfg))"

section \<open>Language detection (core/language_support.py)\<close>

text \<open>
  The enumeration \<open>Language\<close>.  Its member \<open>UNKNOWN\<close> is written \<open>UNKNOWN_LANGUAGE\<close>
  here, the name \<open>UNKNOWN\<close> being taken by the document types.
\<close>

datatype Language =
    ENGLISH | SPANISH | FRENCH | GERMAN | ITALIAN | PORTUGUESE | DUTCH
  | RUSSIAN | CHINESE | JAPANESE | KOREAN | ARABIC | HINDI | THAI
  | VIETNAMESE | INDONESIAN | MALAY | TURKISH | POLISH | SWEDISH | NORWEGIAN
  | DANISH | FINNISH | GREEK | HEBREW | CZECH | ROMANIAN | HUNGARIAN
  | UKRAINIAN | UNKNOWN_LANGUAGE

fun Language_value :: "Language \<Rightarrow> string" where
  "Language_value ENGLISH = ''en''"
| "Language_value SPANISH = ''es''"
| "Language_value FRENCH = ''fr''"
| "Language_value GERMAN = ''de''"
| "Language_value ITALIAN = ''it''"
| "Language_value PORTUGUESE = ''pt''"
| "Language_value DUTCH = ''nl''"
| "Language_value RUSSIAN = ''ru''"
| "Language_value CHINESE = ''zh''"
| "Language_value JAPANESE = ''ja''"
| "Language_value KOREAN = ''ko''"
| "Language_value ARABIC = ''ar''"
| "Language_value HINDI = ''hi''"
| "Language_value THAI = ''th''"
| "Language_value VIETNAMESE = ''vi''"
| "Language_value INDONESIAN = ''id''"
| "Language_value MALAY = ''ms''"
| "Language_value TURKISH = ''tr''"
| "Language_value POLISH = ''pl''"
| "Language_value SWEDISH = ''sv''"
| "Language_value NORWEGIAN = ''no''"
| "Language_value DANISH = ''da''"
| "Language_value FINNISH = ''fi''"
| "Language_value GREEK = ''el''"
| "Language_value HEBREW = ''he''"
| "Language_value CZECH = ''cs''"
| "Language_value ROMANIAN = ''ro''"
| "Language_value HUNGARIAN = ''hu''"
| "Language_value UKRAINIAN = ''uk''"
| "Language_value UNKNOWN_LANGUAGE = ''unknown''"

definition Language_members :: "Language list" where
  "Language_members = [ENGLISH, SPANISH, FRENCH, GERMAN, ITALIAN, PORTUGUESE, DUTCH,
     RUSSIAN, CHINESE, JAPANESE, KOREAN, ARABIC, HINDI, THAI,
     VIETNAMESE, INDONESIAN, MALAY, TURKISH, POLISH, SWEDISH, NORWEGIAN,
     DANISH, FINNISH, GREEK, HEBREW, CZECH, ROMANIAN, HUNGARIAN,
     UKRAINIAN, UNKNOWN_LANGUAGE]"

definition Language_of :: "string \<Rightarrow> py_error + Language" where
  "Language_of v =
     (case find (\<lambda>l. Language_value l = v) Language_members of
        None \<Rightarrow> Inl ValueError
      | Some l \<Rightarrow> Inr l)"

record LanguageDetectionResult =
  primary_language :: Language
  lang_confidence :: rat
  lang_all_scores :: "(string \<times> rat) list"
  script_detected :: string
  is_multilingual :: bool
  secondary_languages :: "Language list"

record lang_config =
  common_words :: "pystr list"
  lang_patterns :: "regex list"
  script :: string

text \<open>
  \<open>_build_language_patterns\<close>, in the order of the dict literal.  Words and patterns
  outside ASCII are given by their code points.
\<close>

definition build_language_patterns :: "(Language \<times> lang_config) list" where
  \<open>build_language_patterns = [
     (ENGLISH, \<lparr>
        common_words = [cps ''the'', cps ''and'', cps ''is'', cps ''in'', cps ''to'', cps ''of'',
          cps ''a'', cps ''for'', cps ''that'', cps ''with''],
        lang_patterns = [
          \<comment> \<open>\<^verbatim>\<open>\bthe\b\<close>\<close>
          rseq [Bound, str ''the'', Bound],
          \<comment> \<open>\<^verbatim>\<open>\band\b\<close>\<close>
          rseq [Bound, str ''and'', Bound],
          \<comment> \<open>\<^verbatim>\<open>\bis\b\<close>\<close>
          rseq [Bound, str ''is'', Bound]],
        script = ''latin'' \<rparr>),
     (SPANISH, \<lparr>
        common_words = [cps ''de'', cps ''la'', cps ''que'', cps ''el'', cps ''en'', cps ''y'',
          cps ''los'', cps ''se'', cps ''del'', cps ''las''],
        lang_patterns = [
          \<comment> \<open>\<^verbatim>\<open>\bque\b\<close>\<close>
          rseq [Bound, str ''que'', Bound],
          \<comment> \<open>\<^verbatim>\<open>\bdel\b\<close>\<close>
          rseq [Bound, str ''del'', Bound],
          \<comment> \<open>\<^verbatim>\<open>U+00F1\<close>\<close>
          Lit 0xF1,
          \<comment> \<open>\<^verbatim>\<open>U+00BF\<close>\<close>
          Lit 0xBF,
          \<comment> \<open>\<^verbatim>\<open>U+00A1\<close>\<close>
          Lit 0xA1],
        script = ''latin'' \<rparr>),
     (FRENCH, \<lparr>
        common_words = [cps ''de'', cps ''la'', cps ''le'', cps ''et'', cps ''les'', cps ''des'',
          cps ''en'', cps ''un'', cps ''du'', cps ''une''],
        lang_patterns = [
          \<comment> \<open>\<^verbatim>\<open>\bqu['e]\<close>\<close>
          rseq [Bound, str ''qu'', Cls False [CChar 0x27, CChar 0x65]],
          \<comment> \<open>\<^verbatim>\<open>\bc'est\b\<close>\<close>
          rseq [Bound, lits [0x63, 0x27, 0x65, 0x73, 0x74], Bound],
          \<comment> \<open>\<^verbatim>\<open>U+0153\<close>\<close>
          Lit 0x153,
          \<comment> \<open>\<^verbatim>\<open>U+00E7\<close>\<close>
          Lit 0xE7],
        script = ''latin'' \<rparr>),
     (GERMAN, \<lparr>
        common_words = [cps ''der'', cps ''die'', cps ''und'', cps ''in'', cps ''den'',
          cps ''von'', cps ''zu'', cps ''das'', cps ''mit'', cps ''sich''],
        lang_patterns = [
          \<comment> \<open>\<^verbatim>\<open>\bder\b\<close>\<close>
          rseq [Bound, str ''der'', Bound],
          \<comment> \<open>\<^verbatim>\<open>\bdie\b\<close>\<close>
          rseq [Bound, str ''die'', Bound],
          \<comment> \<open>\<^verbatim>\<open>\bund\b\<close>\<close>
          rseq [Bound, str ''und'', Bound],
          \<comment> \<open>\<^verbatim>\<open>U+00DF\<close>\<close>
          Lit 0xDF,
          \<comment> \<open>\<^verbatim>\<open>U+00FC\<close>\<close>
          Lit 0xFC,
          \<comment> \<open>\<^verbatim>\<open>U+00F6\<close>\<close>
          Lit 0xF6,
          \<comment> \<open>\<^verbatim>\<open>U+00E4\<close>\<close>
          Lit 0xE4],
        script = ''latin'' \<rparr>),
     (ITALIAN, \<lparr>
        common_words = [cps ''di'', cps ''che'', cps ''la'', cps ''il'', cps ''un'', cps ''per'',
          cps ''con'', cps ''non'', cps ''una'', cps ''sono''],
        lang_patterns = [
          \<comment> \<open>\<^verbatim>\<open>\bche\b\<close>\<close>
          rseq [Bound, str ''che'', Bound],
          \<comment> \<open>\<^verbatim>\<open>\bnon\b\<close>\<close>
          rseq [Bound, str ''non'', Bound],
          \<comment> \<open>\<^verbatim>\<open>\bper\b\<close>\<close>
          rseq [Bound, str ''per'', Bound]],
        script = ''latin'' \<rparr>),
     (PORTUGUESE, \<lparr>
        common_words = [cps ''de'', cps ''que'', cps ''e'', cps ''do'', cps ''da'', cps ''em'',
          cps ''um'', cps ''para'', cps ''com'', [0x6E, 0xE3, 0x6F]],
        lang_patterns = [
          \<comment> \<open>\<^verbatim>\<open>\bnU+00E3o\b\<close>\<close>
          rseq [Bound, lits [0x6E, 0xE3, 0x6F], Bound],
          \<comment> \<open>\<^verbatim>\<open>\bpara\b\<close>\<close>
          rseq [Bound, str ''para'', Bound],
          \<comment> \<open>\<^verbatim>\<open>U+00E3\<close>\<close>
          Lit 0xE3,
          \<comment> \<open>\<^verbatim>\<open>U+00F5\<close>\<close>
          Lit 0xF5],
        script = ''latin'' \<rparr>),
     (DUTCH, \<lparr>
        common_words = [cps ''de'', cps ''het'', cps ''een'', cps ''van'', cps ''en'',
          cps ''in'', cps ''is'', cps ''dat'', cps ''op'', cps ''te''],
        lang_patterns = [
          \<comment> \<open>\<^verbatim>\<open>\bhet\b\<close>\<close>
          rseq [Bound, str ''het'', Bound],
          \<comment> \<open>\<^verbatim>\<open>\been\b\<close>\<close>
          rseq [Bound, str ''een'', Bound],
          \<comment> \<open>\<^verbatim>\<open>\bvan\b\<close>\<close>
          rseq [Bound, str ''van'', Bound],
          \<comment> \<open>\<^verbatim>\<open>ij\<close>\<close>
          str ''ij''],
        script = ''latin'' \<rparr>),
     (RUSSIAN, \<lparr>
        common_words = [[0x438], [0x432], [0x43D, 0x435], [0x43D, 0x430], [0x44F], [0x447, 0x442,
          0x43E], [0x43E, 0x43D], [0x441], [0x44D, 0x442, 0x43E], [0x43A, 0x430, 0x43A]],
        lang_patterns = [
          \<comment> \<open>\<^verbatim>\<open>[U+0430-U+044FU+0410-U+042F]\<close>\<close>
          Cls False [CRange 0x430 0x44F, CRange 0x410 0x42F]],
        script = ''cyrillic'' \<rparr>),
     (CHINESE, \<lparr>
        common_words = [[0x7684], [0x4E00], [0x662F], [0x4E0D], [0x4E86], [0x5728], [0x4EBA],
          [0x6709], [0x6211], [0x4ED6]],
        lang_patterns = [
          \<comment> \<open>\<^verbatim>\<open>[\u4e00-\u9fff]\<close>\<close>
          Cls False [CRange 0x4E00 0x9FFF]],
        script = ''cjk'' \<rparr>),
     (JAPANESE, \<lparr>
        common_words = [[0x306E], [0x306B], [0x306F], [0x3092], [0x305F], [0x304C], [0x3067],
          [0x3066], [0x3068], [0x3057]],
        lang_patterns = [
          \<comment> \<open>\<^verbatim>\<open>[\u3040-\u309f]\<close>\<close>
          Cls False [CRange 0x3040 0x309F],
          \<comment> \<open>\<^verbatim>\<open>[\u30a0-\u30ff]\<close>\<close>
          Cls False [CRange 0x30A0 0x30FF]],
        script = ''japanese'' \<rparr>),
     (KOREAN, \<lparr>
        common_words = [[0xC774], [0xADF8], [0xC800], [0xAC83], [0xC218], [0xD558, 0xB2E4],
          [0xC788, 0xB2E4], [0xB418, 0xB2E4], [0xC5C6, 0xB2E4]],
        lang_patterns = [
          \<comment> \<open>\<^verbatim>\<open>[\uac00-\ud7af]\<close>\<close>
          Cls False [CRange 0xAC00 0xD7AF]],
        script = ''hangul'' \<rparr>),
     (ARABIC, \<lparr>
        common_words = [[0x645, 0x646], [0x641, 0x64A], [0x639, 0x644, 0x649], [0x625, 0x644,
          0x649], [0x639, 0x646], [0x645, 0x639], [0x647, 0x630, 0x627], [0x623, 0x646], [0x643,
          0x627, 0x646], [0x644, 0x627]],
        lang_patterns = [
          \<comment> \<open>\<^verbatim>\<open>[\u0600-\u06ff]\<close>\<close>
          Cls False [CRange 0x0600 0x06FF]],
        script = ''arabic'' \<rparr>),
     (HINDI, \<lparr>
        common_words = [[0x915, 0x93E], [0x915, 0x940], [0x915, 0x94B], [0x92E, 0x947, 0x902],
          [0x939, 0x948], [0x914, 0x930], [0x938, 0x947], [0x915, 0x947], [0x90F, 0x915], [0x92F,
          0x939]],
        lang_patterns = [
          \<comment> \<open>\<^verbatim>\<open>[\u0900-\u097f]\<close>\<close>
          Cls False [CRange 0x0900 0x097F]],
        script = ''devanagari'' \<rparr>),
     (THAI, \<lparr>
        common_words = [[0xE17, 0xE35, 0xE48], [0xE41, 0xE25, 0xE30], [0xE43, 0xE19], [0xE02,
          0xE2D, 0xE07], [0xE21, 0xE35], [0xE40, 0xE1B, 0xE47, 0xE19], [0xE44, 0xE14, 0xE49],
          [0xE08, 0xE30], [0xE19, 0xE35, 0xE49], [0xE44, 0xE21, 0xE48]],
        lang_patterns = [
          \<comment> \<open>\<^verbatim>\<open>[\u0e00-\u0e7f]\<close>\<close>
          Cls False [CRange 0x0E00 0x0E7F]],
        script = ''thai'' \<rparr>)]\<close>

text \<open>
  \<open>_detect_script\<close>.  The chain of \<open>if\<close>/\<open>elif\<close> tests on one code point, in source
  order; \<open>None\<close> when no branch is taken.  The tag of a branch is always a key of
  \<open>script_counts\<close>, so the increment \<open>script_counts[tag] += 1\<close> never fails.
\<close>

definition script_of_code :: "nat \<Rightarrow> string option" where
  "script_of_code code =
     (if 0x0000 \<le> code \<and> code \<le> 0x024F then Some ''latin''
      else if 0x0400 \<le> code \<and> code \<le> 0x04FF then Some ''cyrillic''
      else if 0x0600 \<le> code \<and> code \<le> 0x06FF then Some ''arabic''
      else if 0x4E00 \<le> code \<and> code \<le> 0x9FFF then Some ''cjk''
      else if 0xAC00 \<le> code \<and> code \<le> 0xD7AF then Some ''hangul''
      else if 0x0900 \<le> code \<and> code \<le> 0x097F then Some ''devanagari''
      else if 0x0E00 \<le> code \<and> code \<le> 0x0E7F then Some ''thai''
      else if 0x3040 \<le> code \<and> code \<le> 0x30FF then Some ''japanese''
      else if 0x0590 \<le> code \<and> code \<le> 0x05FF then Some ''hebrew''
      else if 0x0370 \<le> code \<and> code \<le> 0x03FF then Some ''greek''
      else None)"

definition initial_script_counts :: "(string \<times> nat) list" where
  "initial_script_counts = [(''latin'', 0), (''cyrillic'', 0), (''arabic'', 0), (''cjk'', 0),
     (''hangul'', 0), (''devanagari'', 0), (''thai'', 0), (''japanese'', 0), (''hebrew'', 0),
     (''greek'', 0)]"

definition count_scripts :: "pystr \<Rightarrow> (string \<times> nat) list" where
  "count_scripts txt =
     fold (\<lambda>char script_counts.
             case script_of_code char of
               None \<Rightarrow> script_counts
             | Some tag \<Rightarrow> dict_set tag (dict_get script_counts tag 0 + 1) script_counts)
          txt initial_script_counts"

definition detect_script :: "pystr \<Rightarrow> py_error + string" where
  "detect_script txt =
     (let script_counts = count_scripts txt
      in if script_counts \<noteq> [] then py_max_key script_counts else Inr ''unknown'')"

text \<open>
  The body of the loop of \<open>detect\<close> over the table, for one language: common words are
  searched in the lower-cased text without flags, patterns are counted in the text as
  given under \<open>re.IGNORECASE\<close>.
\<close>

definition word_pattern :: "pystr \<Rightarrow> regex" where
  "word_pattern word = rseq [Bound, lits word, Bound]"

definition language_score :: "unicode_db \<Rightarrow> pystr \<Rightarrow> pystr \<Rightarrow> string \<Rightarrow> lang_config \<Rightarrow> rat" where
  "language_score U txt text_lower scr config =
     (let score = fold (\<lambda>word score.
                          if re_matches U False (word_pattern word) text_lower
                          then score + 1 else score)
                       (common_words config) 0;
          score = fold (\<lambda>pattern score. score + of_nat (findall_count U True pattern txt) * (1 / 2))
                       (lang_patterns config) score;
          score = (if script config = scr then score * (3 / 2) else score);
          max_possible = length (common_words config) + length (lang_patterns config) * 5
      in if max_possible > 0 then score / of_nat max_possible else 0)"

definition score_languages ::
  "unicode_db \<Rightarrow> (Language \<times> lang_config) list \<Rightarrow> pystr \<Rightarrow> pystr \<Rightarrow> string \<Rightarrow> (string \<times> rat) list" where
  "score_languages U pats txt text_lower scr =
     fold (\<lambda>(lang, config) scores.
             dict_set (Language_value lang) (language_score U txt text_lower scr config) scores)
          pats []"

text \<open>
  \<open>sorted(scores.items(), key=lambda x: x[1], reverse=True)\<close>: the stable sort by
  descending score (entries with equal scores keep their dict order).
\<close>

definition sorted_desc :: "('k \<times> rat) list \<Rightarrow> ('k \<times> rat) list" where
  "sorted_desc items = sort_key (\<lambda>x. - snd x) items"

text \<open>The loop that collects the secondary languages; \<open>Language(lang_code)\<close> may raise.\<close>

fun collect_secondary :: "(string \<times> rat) list \<Rightarrow> Language list \<Rightarrow> py_error + Language list" where
  "collect_secondary [] secondary = Inr secondary"
| "collect_secondary ((lang_code, score) # rest) secondary =
     (if 1 / 10 < score
      then (case Language_of lang_code of
              Inl e \<Rightarrow> Inl e
            | Inr l \<Rightarrow> collect_secondary rest (secondary @ [l]))
      else collect_secondary rest secondary)"

definition detect_with ::
  "unicode_db \<Rightarrow> (Language \<times> lang_config) list \<Rightarrow> pystr \<Rightarrow> py_error + LanguageDetectionResult" where
  "detect_with U pats txt =
     (if txt = [] \<or> length (strip txt) = 0 then
        Inr \<lparr> primary_language = UNKNOWN_LANGUAGE, lang_confidence = 0, lang_all_scores = [],
              script_detected = ''unknown'', is_multilingual = False, secondary_languages = [] \<rparr>
      else
        let text_lower = str_lower U txt in
        case detect_script txt of
          Inl e \<Rightarrow> Inl e
        | Inr scr \<Rightarrow>
           let scores = score_languages U pats txt text_lower scr;
               sorted_scores = sorted_desc scores
           in if sorted_scores \<noteq> [] \<and> 0 < snd (hd sorted_scores) then
                (case Language_of (fst (hd sorted_scores)) of
                   Inl e \<Rightarrow> Inl e
                 | Inr primary \<Rightarrow>
                    let confidence = min (snd (hd sorted_scores) * 2) 1
                    in (case collect_secondary (take 3 (drop 1 sorted_scores)) [] of
                          Inl e \<Rightarrow> Inl e
                        | Inr secondary \<Rightarrow>
                           Inr \<lparr> primary_language = primary, lang_confidence = confidence,
                                 lang_all_scores = scores, script_detected = scr,
                                 is_multilingual = (0 < length secondary),
                                 secondary_languages = secondary \<rparr>))
              else
                Inr \<lparr> primary_language = UNKNOWN_LANGUAGE, lang_confidence = 0,
                      lang_all_scores = scores, script_detected = scr,
                      is_multilingual = False, secondary_languages = [] \<rparr>)"

text \<open>\<open>LanguageDetector.detect\<close>, with \<open>self._patterns\<close> as built by the constructor.\<close>

definition detect :: "unicode_db \<Rightarrow> pystr \<Rightarrow> py_error + LanguageDetectionResult" where
  "detect U txt = detect_with U build_language_patterns txt"

text \<open>
  The notions the statements about \<open>detect\<close> are phrased in: a text is blank when it is
  empty or consists of whitespace; \<open>language_scores\<close> lists the score of every language
  of the table for a text, in table order; \<open>word_hits\<close> counts the common words of a
  language found as whole words, \<open>pattern_occurrences\<close> adds up the occurrences of its
  patterns.
\<close>

definition blank :: "pystr \<Rightarrow> bool" where
  "blank txt = list_all is_space txt"

definition the_script :: "pystr \<Rightarrow> string" where
  "the_script txt = (case detect_script txt of Inl e \<Rightarrow> ''unknown'' | Inr scr \<Rightarrow> scr)"

definition language_scores :: "unicode_db \<Rightarrow> pystr \<Rightarrow> (Language \<times> rat) list" where
  "language_scores U txt =
     map (\<lambda>(lang, config). (lang, language_score U txt (str_lower U txt) (the_script txt) config))
         build_language_patterns"

definition word_hits :: "unicode_db \<Rightarrow> pystr \<Rightarrow> lang_config \<Rightarrow> nat" where
  "word_hits U txt config =
     card {w \<in> set (common_words config). re_matches U False (word_pattern w) (str_lower U txt)}"

definition pattern_occurrences :: "unicode_db \<Rightarrow> pystr \<Rightarrow> lang_config \<Rightarrow> nat" where
  "pattern_occurrences U txt config =
     sum_list (map (\<lambda>p. findall_count U True p txt) (lang_patterns config))"

definition lang_dict :: "(Language \<times> rat) list \<Rightarrow> (string \<times> rat) list" where
  "lang_dict xs = map (\<lambda>(l, v). (Language_value l, v)) xs"

definition ranked :: "('k \<times> rat) list \<Rightarrow> ('k \<times> rat) list" where
  "ranked xs = sorted_desc xs"

text \<open>The ten code-point ranges that \<open>_detect_script\<close> tests, and its ten tags.\<close>

definition in_script_range :: "nat \<Rightarrow> bool" where
  "in_script_range code =
     (code \<le> 0x024F \<or> (0x0370 \<le> code \<and> code \<le> 0x03FF) \<or> (0x0400 \<le> code \<and> code \<le> 0x04FF)
      \<or> (0x0590 \<le> code \<and> code \<le> 0x05FF) \<or> (0x0600 \<le> code \<and> code \<le> 0x06FF)
      \<or> (0x0900 \<le> code \<and> code \<le> 0x097F) \<or> (0x0E00 \<le> code \<and> code \<le> 0x0E7F)
      \<or> (0x3040 \<le> code \<and> code \<le> 0x30FF) \<or> (0x4E00 \<le> code \<and> code \<le> 0x9FFF)
      \<or> (0xAC00 \<le> code \<and> code \<le> 0xD7AF))"

definition script_tags :: "string list" where
  "script_tags = [''latin'', ''cyrillic'', ''arabic'', ''cjk'', ''hangul'', ''devanagari'', ''thai'',
     ''japanese'', ''hebrew'', ''greek'']"

section \<open>Field extraction (core/field_extractor.py)\<close>

record FieldResult =
  f_value :: pystr
  f_confidence :: rat
  found :: bool

text \<open>
  The pattern \<^verbatim>\<open>{re.escape(label)}[\s:]+([^\n]+)\<close> that \<open>_extract_field\<close> builds for a
  label.
\<close>

definition field_pattern :: "pystr \<Rightarrow> regex" where
  "field_pattern label =
     Seq (lits label)
         (Seq (Plus (Cls False [CSpace, CChar 0x3A])) (Grp (Plus (Cls True [CChar 0x0A]))))"

text \<open>\<open>field_name.replace(" ", "")\<close>.\<close>

definition remove_spaces :: "pystr \<Rightarrow> pystr" where
  "remove_spaces s = filter (\<lambda>c. c \<noteq> 0x20) s"

text \<open>The loop over the patterns: the first one found in the text decides.\<close>

fun first_match :: "unicode_db \<Rightarrow> pystr \<Rightarrow> regex list \<Rightarrow> pystr" where
  "first_match U txt [] = []"
| "first_match U txt (pattern # rest) =
     (case re_search U True pattern txt of
        Some m \<Rightarrow> strip (group1 txt m)
      | None \<Rightarrow> first_match U txt rest)"

definition extract_field :: "unicode_db \<Rightarrow> pystr \<Rightarrow> pystr \<Rightarrow> pystr" where
  "extract_field U txt field_name =
     (let field_lower = str_lower U field_name;
          patterns = [field_pattern field_name, field_pattern field_lower,
                      field_pattern (remove_spaces field_name)]
      in first_match U txt patterns)"

text \<open>
  \<open>_calculate_confidence\<close>.  The library expression
  \<^verbatim>\<open>int(hashlib.md5(field_name.encode()).hexdigest()[:8], 16)\<close> is the parameter
  \<open>stable_hash\<close>.
\<close>

definition calculate_confidence :: "(pystr \<Rightarrow> nat) \<Rightarrow> pystr \<Rightarrow> pystr \<Rightarrow> rat" where
  "calculate_confidence stable_hash field_name val =
     (if val = [] then 0
      else let base_confidence = 85 / 100;
               hash_value = stable_hash field_name;
               variation = of_nat (hash_value mod 15) / 100
           in min 1 (base_confidence + variation))"

text \<open>
  \<open>FieldExtractor.extract\<close>, here \<open>extract_fields\<close>.  \<open>self_fields\<close> is \<open>self.fields\<close> (the constructor's argument or the
  constant \<open>PREDEFINED_FIELDS\<close> of the configuration module); the optional arguments
  default to \<open>None\<close>.
\<close>

definition all_fields :: "pystr list \<Rightarrow> pystr list option \<Rightarrow> pystr list option \<Rightarrow> pystr list" where
  "all_fields self_fields enabled_fields custom_fields =
     (let enabled = (case enabled_fields of None \<Rightarrow> self_fields | Some fs \<Rightarrow> fs)
      in case custom_fields of
           None \<Rightarrow> enabled
         | Some cs \<Rightarrow> if cs = [] then enabled
                      else enabled @ map strip (filter (\<lambda>f. strip f \<noteq> []) cs))"

definition field_result :: "unicode_db \<Rightarrow> (pystr \<Rightarrow> nat) \<Rightarrow> pystr \<Rightarrow> pystr \<Rightarrow> FieldResult" where
  "field_result U stable_hash txt field =
     (let val = extract_field U txt field;
          confidence = calculate_confidence stable_hash field val
      in \<lparr> f_value = val, f_confidence = confidence, found = (val \<noteq> []) \<rparr>)"

definition extract_fields ::
  "unicode_db \<Rightarrow> (pystr \<Rightarrow> nat) \<Rightarrow> pystr list \<Rightarrow> pystr \<Rightarrow> pystr list option \<Rightarrow> pystr list option
     \<Rightarrow> (pystr \<times> FieldResult) list" where
  "extract_fields U stable_hash self_fields txt enabled_fields custom_fields =
     fold (\<lambda>field results. dict_set field (field_result U stable_hash txt field) results)
          (all_fields self_fields enabled_fields custom_fields) []"

text \<open>
  What it means for a text to match the pattern of a label at position \<open>i\<close> with the
  group spanning \<open>[a, b)\<close>: the label stands at \<open>i\<close> (compared without regard to case),
  one or more characters of the class \<^verbatim>\<open>[\s:]\<close> follow up to \<open>a\<close>, and the group is a
  non-empty run of characters of the class \<^verbatim>\<open>[^\n]\<close> that ends at the end of the text or
  in front of a character outside that class.
\<close>

definition is_sep :: "unicode_db \<Rightarrow> nat \<Rightarrow> bool" where
  "is_sep U c = cls_match U True False [CSpace, CChar 0x3A] c"

definition not_newline :: "unicode_db \<Rightarrow> nat \<Rightarrow> bool" where
  "not_newline U c = cls_match U True True [CChar 0x0A] c"

definition label_match :: "unicode_db \<Rightarrow> pystr \<Rightarrow> pystr \<Rightarrow> nat \<Rightarrow> nat \<Rightarrow> nat \<Rightarrow> bool" where
  "label_match U txt label i a b =
     (i + length label < a \<and> a < b \<and> b \<le> length txt
      \<and> (\<forall>k < length label. lit_match U True (label ! k) (txt ! (i + k)))
      \<and> (\<forall>k. i + length label \<le> k \<and> k < a \<longrightarrow> is_sep U (txt ! k))
      \<and> (\<forall>k. a \<le> k \<and> k < b \<longrightarrow> not_newline U (txt ! k))
      \<and> (b = length txt \<or> \<not> not_newline U (txt ! b)))"

text \<open>
  The value of the library expression
  \<^verbatim>\<open>int(hashlib.md5(field_name.encode()).hexdigest()[:8], 16)\<close> on the field names
  \<open>Name\<close> and \<open>Age\<close>, for use in examples.
\<close>

definition example_hash :: "pystr \<Rightarrow> nat" where
  "example_hash field_name =
     (if field_name = cps ''Name'' then 0x49EE3087
      else if field_name = cps ''Age'' then 0x9D8D2D5A
      else 0)"

section \<open>Lemmas about dicts, \<open>max\<close> and sorting\<close>

lemma dict_set_fresh: "k \<notin> fst ` set d \<Longrightarrow> dict_set k v d = d @ [(k, v)]"
  by (induction d) auto

lemma max_from_split:
  "\<exists>v pre post. (bk, bv) # d = pre @ (max_from (bk, bv) d, v) # post
      \<and> (\<forall>(k', v') \<in> set pre. v' < v) \<and> (\<forall>(k', v') \<in> set post. v' \<le> v)"
proof (induction d arbitrary: bk bv)
  case Nil
  show ?case by (rule exI[of _ bv], rule exI[of _ "[]"], rule exI[of _ "[]"]) simp
next
  case (Cons x d)
  obtain k v where x: "x = (k, v)" by (cases x)
  show ?case
  proof (cases "bv < v")
    case True
    from Cons.IH[of k v] obtain w pre post where
      eq: "(k, v) # d = pre @ (max_from (k, v) d, w) # post"
      and pre: "\<forall>(k', v') \<in> set pre. v' < w" and post: "\<forall>(k', v') \<in> set post. v' \<le> w"
      by blast
    have "(k, v) \<in> set (pre @ (max_from (k, v) d, w) # post)"
      using eq by (metis list.set_intros(1))
    then have "v \<le> w" using pre post by auto
    then have lt: "bv < w" using True by simp
    have m: "max_from (bk, bv) ((k, v) # d) = max_from (k, v) d" using True by simp
    have "(bk, bv) # x # d = ((bk, bv) # pre) @ (max_from (bk, bv) (x # d), w) # post"
      unfolding x m using eq by simp
    moreover have "\<forall>(k', v') \<in> set ((bk, bv) # pre). v' < w" using pre lt by simp
    ultimately show ?thesis using post by blast
  next
    case False
    from Cons.IH[of bk bv] obtain w pre post where
      eq: "(bk, bv) # d = pre @ (max_from (bk, bv) d, w) # post"
      and pre: "\<forall>(k', v') \<in> set pre. v' < w" and post: "\<forall>(k', v') \<in> set post. v' \<le> w"
      by blast
    have m: "max_from (bk, bv) (x # d) = max_from (bk, bv) d" using False x by simp
    show ?thesis
    proof (cases pre)
      case Nil
      then have "w = bv" "post = d" "max_from (bk, bv) d = bk" using eq by auto
      then have "(bk, bv) # x # d = [] @ (max_from (bk, bv) (x # d), w) # (x # d)
         \<and> (\<forall>(k', v') \<in> set []. v' < w) \<and> (\<forall>(k', v') \<in> set (x # d). v' \<le> w)"
        using m post False x by auto
      then show ?thesis by blast
    next
      case (Cons p pre')
      then have p: "p = (bk, bv)" and d: "d = pre' @ (max_from (bk, bv) d, w) # post"
        using eq by auto
      have "bv < w" using pre Cons p by auto
      then have "v < w" using False by simp
      then have "(bk, bv) # x # d = ((bk, bv) # x # pre') @ (max_from (bk, bv) (x # d), w) # post
         \<and> (\<forall>(k', v') \<in> set ((bk, bv) # x # pre'). v' < w) \<and> (\<forall>(k', v') \<in> set post. v' \<le> w)"
        using m d pre post Cons p x by auto
      then show ?thesis by blast
    qed
  qed
qed

lemma find_split:
  assumes "\<forall>x \<in> set pre. \<not> P x" and "P y"
  shows "find P (pre @ y # post) = Some y"
  using assms by (induction pre) auto

lemma py_max_key_first_highest:
  assumes "xs \<noteq> []"
  shows "\<exists>k v. first_highest xs = Some (k, v) \<and> py_max_key xs = Inr k \<and> (k, v) \<in> set xs
           \<and> (\<forall>(k', v') \<in> set xs. v' \<le> v)"
proof -
  obtain bk bv d where xs: "xs = (bk, bv) # d" using assms by (cases xs) auto
  from max_from_split[of bk bv d] obtain w pre post where
      eq: "(bk, bv) # d = pre @ (max_from (bk, bv) d, w) # post"
      and pre: "\<forall>(k', v') \<in> set pre. v' < w" and post: "\<forall>(k', v') \<in> set post. v' \<le> w"
    by blast
  let ?P = "\<lambda>(k, v). list_all (\<lambda>(k', v'). v' \<le> v) xs"
  have all: "\<forall>(k', v') \<in> set xs. v' \<le> w" using pre post eq xs by auto
  have Py: "?P (max_from (bk, bv) d, w)" using all by (auto simp: list_all_iff)
  have mem: "(max_from (bk, bv) d, w) \<in> set xs" using eq xs by auto
  have npre: "\<forall>x \<in> set pre. \<not> ?P x"
  proof
    fix x assume xin: "x \<in> set pre"
    obtain k v where x: "x = (k, v)" by (cases x)
    have "v < w" using pre xin x by auto
    then have "\<not> w \<le> v" by simp
    then show "\<not> ?P x" using mem x by (auto simp: list_all_iff)
  qed
  have "first_highest xs = Some (max_from (bk, bv) d, w)"
    unfolding first_highest_def using find_split[of pre ?P "(max_from (bk, bv) d, w)" post] npre Py eq xs
    by simp
  then show ?thesis using xs mem all by auto
qed

lemma first_highest_Max:
  assumes "first_highest xs = Some (k, v)"
  shows "v = Max (snd ` set xs) \<and> (k, v) \<in> set xs"
proof -
  have mem: "(k, v) \<in> set xs"
    using assms unfolding first_highest_def by (metis find_Some_iff nth_mem)
  have top: "\<forall>(k', v') \<in> set xs. v' \<le> v"
    using assms unfolding first_highest_def
    by (auto simp: find_Some_iff list_all_iff)
  have "Max (snd ` set xs) = v"
  proof (rule Max_eqI)
    show "finite (snd ` set xs)" by simp
    show "\<And>y. y \<in> snd ` set xs \<Longrightarrow> y \<le> v" using top by auto
    show "v \<in> snd ` set xs" using mem by force
  qed
  then show ?thesis using mem by simp
qed

lemmas regex_eval = cps_def lits_def rseq_def Plus_def Opt_def str_def ch_def Sp_def Wd_def Dg_def
  re_search_def re_matches_def search_from.simps run.simps(8) run.simps(9)
  lit_match_def cls_match_def ascii_db_def ascii_lower_def ascii_upper_def is_space_def is_word_def
  ascii_alnum_def ascii_decimal_def at_boundary_def

lemma card_filter_distinct:
  assumes "distinct xs"
  shows "card {x \<in> set xs. P x} = length (filter P xs)"
proof -
  have "card {x \<in> set xs. P x} = card (set (filter P xs))" by simp
  also have "\<dots> = length (filter P xs)" by (rule distinct_card) (simp add: assms)
  finally show ?thesis .
qed

section \<open>Properties of the classifier\<close>

lemma score_all_fold:
  assumes "distinct (map (DocumentType_value \<circ> fst) pats)"
    and "\<forall>p \<in> set pats. DocumentType_value (fst p) \<notin> fst ` set sc"
    and "map fst kf = map fst sc"
  shows "fold (\<lambda>(doc_type, cfg) (scores, keywords_found).
             let (normalized_score, found_keywords) = score_type U tx cfg
             in (dict_set (DocumentType_value doc_type) normalized_score scores,
                 dict_set (DocumentType_value doc_type) found_keywords keywords_found))
          pats (sc, kf)
       = (sc @ map (\<lambda>(t, c). (DocumentType_value t, fst (score_type U tx c))) pats,
          kf @ map (\<lambda>(t, c). (DocumentType_value t, snd (score_type U tx c))) pats)"
  using assms
proof (induction pats arbitrary: sc kf)
  case Nil
  then show ?case by simp
next
  case (Cons p pats)
  obtain t c where p: "p = (t, c)" by (cases p)
  have fresh: "DocumentType_value t \<notin> fst ` set sc" using Cons.prems(2) p by auto
  have fresh': "DocumentType_value t \<notin> fst ` set kf"
    using fresh Cons.prems(3) by (metis set_map)
  let ?sc = "sc @ [(DocumentType_value t, fst (score_type U tx c))]"
  let ?kf = "kf @ [(DocumentType_value t, snd (score_type U tx c))]"
  have 1: "distinct (map (DocumentType_value \<circ> fst) pats)" using Cons.prems(1) by (simp add: comp_def)
  have 2: "\<forall>q \<in> set pats. DocumentType_value (fst q) \<notin> fst ` set ?sc"
    using Cons.prems(1,2) p by (auto simp: image_iff)
  have 3: "map fst ?kf = map fst ?sc" using Cons.prems(3) by simp
  show ?case
    using Cons.IH[OF 1 2 3] p
    by (simp add: dict_set_fresh[OF fresh] dict_set_fresh[OF fresh'] case_prod_beta Let_def)
qed

lemma score_all_eq:
  assumes "distinct (map (DocumentType_value \<circ> fst) pats)"
  shows "score_all U pats tx
       = (map (\<lambda>(t, c). (DocumentType_value t, fst (score_type U tx c))) pats,
          map (\<lambda>(t, c). (DocumentType_value t, snd (score_type U tx c))) pats)"
  unfolding score_all_def using score_all_fold[OF assms, of "[]" "[]" U tx] by simp

lemma score_keywords_fold:
  "fold (\<lambda>keyword (score, found_keywords).
             if contains (str_lower U keyword) tx
             then (score + 1, found_keywords @ [keyword])
             else (score, found_keywords)) kws (s :: rat, f)
   = (s + of_nat (length (filter (\<lambda>k. contains (str_lower U k) tx) kws)),
      f @ filter (\<lambda>k. contains (str_lower U k) tx) kws)"
  by (induction kws arbitrary: s f) (auto simp: algebra_simps)

lemma score_keywords_eq:
  "score_keywords U tx kws
   = (of_nat (length (filter (\<lambda>k. contains (str_lower U k) tx) kws)),
      filter (\<lambda>k. contains (str_lower U k) tx) kws)"
  unfolding score_keywords_def by (simp add: score_keywords_fold)

lemma score_patterns_eq:
  "score_patterns U tx pats s
   = s + 2 * of_nat (length (filter (\<lambda>p. re_matches U False p tx) pats))"
  unfolding score_patterns_def by (induction pats arbitrary: s) (auto simp: algebra_simps)

lemma score_type_fst:
  "fst (score_type U tx cfg) =
     (if 0 < length (cfg_keywords cfg) + length (cfg_patterns cfg) * 2
      then of_nat (raw_hits U tx cfg) * cfg_weight cfg
             / of_nat (length (cfg_keywords cfg) + length (cfg_patterns cfg) * 2)
      else 0)"
  by (simp add: score_type_def score_keywords_eq score_patterns_eq raw_hits_def Let_def)

lemma score_type_nonneg: "0 \<le> cfg_weight cfg \<Longrightarrow> 0 \<le> fst (score_type U tx cfg)"
  by (simp add: score_type_fst)

lemma DocumentType_of_value: "DocumentType_of (DocumentType_value t) = Inr t"
  by (cases t) (simp_all add: DocumentType_of_def DocumentType_members_def)

lemma DocumentType_value_inj: "DocumentType_value a = DocumentType_value b \<Longrightarrow> a = b"
  by (metis DocumentType_of_value sum.inject(2))

lemma max_from_map: "max_from (f k, v) (map (\<lambda>(k, v). (f k, v)) d) = f (max_from (k, v) d)"
  by (induction d arbitrary: k v) auto

lemma py_max_key_map:
  "py_max_key xs = Inr k \<Longrightarrow> py_max_key (map (\<lambda>(k, v). (f k, v)) xs) = Inr (f k)"
  by (cases xs) (auto simp: max_from_map)

lemma classify_with_char:
  assumes dist: "distinct (map (DocumentType_value \<circ> fst) pats)"
    and fh: "first_highest (nscores U pats txt) = Some (bt, bs)"
  shows "classify_with U pats txt =
           Inr (if bs < 1 / 10
                then \<lparr> document_type = UNKNOWN, confidence = 0,
                       all_scores = scores_dict (nscores U pats txt), keywords_found = [] \<rparr>
                else \<lparr> document_type = bt, confidence = min (bs * 2) 1,
                       all_scores = scores_dict (nscores U pats txt),
                       keywords_found =
                         dict_get (map (\<lambda>(t, c). (DocumentType_value t,
                                          snd (score_type U (str_lower U txt) c))) pats)
                                  (DocumentType_value bt) [] \<rparr>)"
proof -
  let ?tx = "str_lower U txt"
  let ?ns = "nscores U pats txt"
  let ?sc = "scores_dict ?ns"
  have ne: "?ns \<noteq> []" using fh by (auto simp: first_highest_def)
  from py_max_key_first_highest[OF ne] fh
  have mk: "py_max_key ?ns = Inr bt" and mem: "(bt, bs) \<in> set ?ns" by auto
  have sc_eq: "?sc = map (\<lambda>(t, c). (DocumentType_value t, fst (score_type U ?tx c))) pats"
    by (simp add: scores_dict_def nscores_def case_prod_beta)
  have sa: "score_all U pats ?tx =
      (?sc, map (\<lambda>(t, c). (DocumentType_value t, snd (score_type U ?tx c))) pats)"
    using score_all_eq[OF dist, of U ?tx] sc_eq by simp
  have mk': "py_max_key ?sc = Inr (DocumentType_value bt)"
    unfolding scores_dict_def using py_max_key_map[OF mk] .
  have dsc: "distinct (map fst ?sc)"
    using dist by (simp add: sc_eq comp_def case_prod_beta)
  have "(DocumentType_value bt, bs) \<in> set ?sc"
    using mem by (force simp: scores_dict_def)
  then have look: "map_of ?sc (DocumentType_value bt) = Some bs"
    using dsc by (rule map_of_is_SomeI[rotated])
  have ne': "?sc \<noteq> []" using ne by (simp add: scores_dict_def)
  show ?thesis
    unfolding classify_with_def Let_def sa
    using mk' look ne' by (simp add: DocumentType_of_value)
qed

lemma build_patterns_types:
  "map fst build_patterns = [INVOICE, RECEIPT, CONTRACT, FORM, LETTER, REPORT, ID_DOCUMENT,
     BANK_STATEMENT, TAX_DOCUMENT, MEDICAL]"
  by (simp add: build_patterns_def)

lemma build_patterns_distinct: "distinct (map (DocumentType_value \<circ> fst) build_patterns)"
proof -
  have "map (DocumentType_value \<circ> fst) build_patterns = map DocumentType_value (map fst build_patterns)"
    by simp
  then show ?thesis unfolding build_patterns_types by simp
qed

lemma build_patterns_weights: "list_all (\<lambda>(t, c). 0 \<le> cfg_weight c) build_patterns"
  by (simp add: build_patterns_def)

lemma build_patterns_sizes:
  "list_all (\<lambda>(t, c). 0 < length (cfg_keywords c) + length (cfg_patterns c) * 2) build_patterns"
  by (simp add: build_patterns_def)

lemma normalized_scores_types:
  "map fst (normalized_scores U txt) = map fst build_patterns"
  by (simp add: normalized_scores_def nscores_def case_prod_beta comp_def)

lemma normalized_scores_nonneg: "(t, v) \<in> set (normalized_scores U txt) \<Longrightarrow> 0 \<le> v"
  using build_patterns_weights
  by (auto simp: normalized_scores_def nscores_def list_all_iff intro!: score_type_nonneg)

lemma classify_char:
  "\<exists>bt bs. first_highest (normalized_scores U txt) = Some (bt, bs)
      \<and> bs = best_score U txt \<and> 0 \<le> bs \<and> bt \<noteq> UNKNOWN
      \<and> classify U txt =
           Inr (if bs < 1 / 10
                then \<lparr> document_type = UNKNOWN, confidence = 0,
                       all_scores = scores_dict (normalized_scores U txt), keywords_found = [] \<rparr>
                else \<lparr> document_type = bt, confidence = min (bs * 2) 1,
                       all_scores = scores_dict (normalized_scores U txt),
                       keywords_found =
                         dict_get (map (\<lambda>(t, c). (DocumentType_value t,
                                          snd (score_type U (str_lower U txt) c))) build_patterns)
                                  (DocumentType_value bt) [] \<rparr>)"
proof -
  have ne: "normalized_scores U txt \<noteq> []"
    using normalized_scores_types[of U "txt"] build_patterns_types by auto
  from py_max_key_first_highest[OF ne] obtain bt bs where
    fh: "first_highest (normalized_scores U txt) = Some (bt, bs)" by blast
  have mx: "bs = best_score U txt" and mem: "(bt, bs) \<in> set (normalized_scores U txt)"
    using first_highest_Max[OF fh] by (auto simp: best_score_def)
  have nn: "0 \<le> bs" using normalized_scores_nonneg[OF mem] .
  have "bt \<in> set (map fst (normalized_scores U txt))" using mem by force
  then have nu: "bt \<noteq> UNKNOWN"
    unfolding normalized_scores_types build_patterns_types by auto
  show ?thesis
    using classify_with_char[OF build_patterns_distinct, of U "txt" bt bs] fh mx nn nu
    unfolding classify_def normalized_scores_def by blast
qed

lemmas classify_eval = classify_def classify_with_def build_patterns_def score_all_def score_type_def
  score_keywords_def score_patterns_def DocumentType_of_def DocumentType_members_def dict_get_def

lemma normalized_scores_empty:
  "normalized_scores ascii_db [] = [(INVOICE, 0), (RECEIPT, 0), (CONTRACT, 0), (FORM, 0), (LETTER, 0),
     (REPORT, 0), (ID_DOCUMENT, 0), (BANK_STATEMENT, 0), (TAX_DOCUMENT, 0), (MEDICAL, 0)]"
  by (simp add: normalized_scores_def nscores_def build_patterns_def score_type_def
      score_keywords_def score_patterns_def regex_eval)

lemma normalized_scores_inv:
  "normalized_scores ascii_db (cps ''Invoice Number: INV-001'') =
     [(INVOICE, 6 / 25), (RECEIPT, 0), (CONTRACT, 0), (FORM, 0), (LETTER, 0),
      (REPORT, 0), (ID_DOCUMENT, 0), (BANK_STATEMENT, 0), (TAX_DOCUMENT, 0), (MEDICAL, 0)]"
  by (simp add: normalized_scores_def nscores_def build_patterns_def score_type_def
      score_keywords_def score_patterns_def regex_eval)

lemma normalized_scores_tie:
  "normalized_scores ascii_db (cps ''sex expiry account balance'') =
     [(INVOICE, 0), (RECEIPT, 0), (CONTRACT, 0), (FORM, 0), (LETTER, 0),
      (REPORT, 0), (ID_DOCUMENT, 2 / 17), (BANK_STATEMENT, 2 / 17), (TAX_DOCUMENT, 0), (MEDICAL, 0)]"
  by (simp add: normalized_scores_def nscores_def build_patterns_def score_type_def
      score_keywords_def score_patterns_def regex_eval)

lemma classify_empty:
  "classify ascii_db [] = Inr \<lparr> document_type = UNKNOWN, confidence = 0, all_scores =
   [(''invoice'', 0), (''receipt'', 0), (''contract'', 0), (''form'', 0), (''letter'', 0), (''report'', 0),
    (''id_document'', 0), (''bank_statement'', 0), (''tax_document'', 0), (''medical'', 0)],
    keywords_found = [] \<rparr>"
  by (simp add: classify_eval regex_eval)

lemma classify_inv:
  "classify ascii_db (cps ''Invoice Number: INV-001'') =
     Inr \<lparr> document_type = INVOICE, confidence = 12 / 25, all_scores =
       [(''invoice'', 6 / 25), (''receipt'', 0), (''contract'', 0), (''form'', 0), (''letter'', 0),
        (''report'', 0), (''id_document'', 0), (''bank_statement'', 0), (''tax_document'', 0),
        (''medical'', 0)],
       keywords_found = [cps ''invoice'', cps ''invoice number''] \<rparr>"
  by (simp add: classify_eval regex_eval)

lemma best_score_empty: "best_score ascii_db [] = 0"
  by (simp add: best_score_def normalized_scores_empty)

lemma best_score_inv: "best_score ascii_db (cps ''Invoice Number: INV-001'') = 6 / 25"
  by (simp add: best_score_def normalized_scores_inv)

lemma classify_all_scores:
  "\<exists>r. classify U txt = Inr r \<and> all_scores r = scores_dict (normalized_scores U txt)"
proof -
  from classify_char[of U "txt"] obtain bt bs where
    cl: "classify U txt = Inr (if bs < 1 / 10
                then \<lparr> document_type = UNKNOWN, confidence = 0,
                       all_scores = scores_dict (normalized_scores U txt), keywords_found = [] \<rparr>
                else \<lparr> document_type = bt, confidence = min (bs * 2) 1,
                       all_scores = scores_dict (normalized_scores U txt),
                       keywords_found =
                         dict_get (map (\<lambda>(t, c). (DocumentType_value t,
                                          snd (score_type U (str_lower U txt) c))) build_patterns)
                                  (DocumentType_value bt) [] \<rparr>)"
    by blast
  show ?thesis using cl by (cases "bs < 1 / 10") simp_all
qed

lemma build_patterns_distinct_lists:
  "list_all (\<lambda>(t, c). distinct (cfg_keywords c) \<and> distinct (cfg_patterns c)) build_patterns"
  by (simp add: build_patterns_def cps_def str_def lits_def rseq_def ch_def Plus_def Opt_def
      Sp_def Wd_def Dg_def)

subsection \<open>Confidence and the UNKNOWN type\<close>

text \<open>
  Claim C1.  For every input text \<open>classify\<close> returns a result (it raises nothing); the
  confidence of the result lies between 0 and 1, and the returned document type is
  \<open>UNKNOWN\<close> exactly when the returned confidence is 0.
\<close>

theorem classify_confidence_unknown:
  "\<exists>r. classify U txt = Inr r \<and> 0 \<le> confidence r \<and> confidence r \<le> 1
       \<and> (document_type r = UNKNOWN \<longleftrightarrow> confidence r = 0)"
proof -
  from classify_char[of U "txt"] obtain bt bs r where
    nn: "0 \<le> bs" and nu: "bt \<noteq> UNKNOWN" and cl: "classify U txt = Inr r"
    and r: "r = (if bs < 1 / 10
                then \<lparr> document_type = UNKNOWN, confidence = 0,
                       all_scores = scores_dict (normalized_scores U txt), keywords_found = [] \<rparr>
                else \<lparr> document_type = bt, confidence = min (bs * 2) 1,
                       all_scores = scores_dict (normalized_scores U txt),
                       keywords_found =
                         dict_get (map (\<lambda>(t, c). (DocumentType_value t,
                                          snd (score_type U (str_lower U txt) c))) build_patterns)
                                  (DocumentType_value bt) [] \<rparr>)"
    by blast
  show ?thesis
  proof (cases "bs < 1 / 10")
    case True
    then show ?thesis using cl r by simp
  next
    case False
    then have "0 < min (bs * 2) 1" by simp
    then show ?thesis using cl r False nu nn by simp
  qed
qed

theorem classify_confidence_unknown_witness:
  "\<exists>r. classify ascii_db (cps ''Invoice Number: INV-001'') = Inr r
       \<and> document_type r = INVOICE \<and> confidence r = 12 / 25
       \<and> 0 \<le> confidence r \<and> confidence r \<le> 1
       \<and> (document_type r = UNKNOWN \<longleftrightarrow> confidence r = 0)"
  using classify_confidence_unknown[of ascii_db "cps ''Invoice Number: INV-001''"]
  by (simp add: classify_inv)

subsection \<open>The threshold\<close>

text \<open>
  Claim C2.  For every input text the per-type normalized scores are reported in
  \<open>all_scores\<close>; when the best normalized score is strictly below 0.1 the result is
  \<open>UNKNOWN\<close> with confidence 0 and no keywords; otherwise the confidence is
  \<open>min (best_score * 2) 1\<close>.
\<close>

theorem classify_threshold:
  "\<exists>r. classify U txt = Inr r
       \<and> all_scores r = scores_dict (normalized_scores U txt)
       \<and> (best_score U txt < 1 / 10 \<longrightarrow>
            document_type r = UNKNOWN \<and> confidence r = 0 \<and> keywords_found r = [])
       \<and> (\<not> best_score U txt < 1 / 10 \<longrightarrow> confidence r = min (best_score U txt * 2) 1)"
proof -
  from classify_char[of U "txt"] obtain bt bs where
    bs: "bs = best_score U txt"
    and cl: "classify U txt = Inr (if bs < 1 / 10
                then \<lparr> document_type = UNKNOWN, confidence = 0,
                       all_scores = scores_dict (normalized_scores U txt), keywords_found = [] \<rparr>
                else \<lparr> document_type = bt, confidence = min (bs * 2) 1,
                       all_scores = scores_dict (normalized_scores U txt),
                       keywords_found =
                         dict_get (map (\<lambda>(t, c). (DocumentType_value t,
                                          snd (score_type U (str_lower U txt) c))) build_patterns)
                                  (DocumentType_value bt) [] \<rparr>)"
    by blast
  show ?thesis using cl bs by (cases "bs < 1 / 10") simp_all
qed

theorem classify_threshold_witness:
  "(best_score ascii_db [] < 1 / 10
     \<and> (\<exists>r. classify ascii_db [] = Inr r \<and> document_type r = UNKNOWN \<and> confidence r = 0
            \<and> keywords_found r = [] \<and> all_scores r = scores_dict (normalized_scores ascii_db [])))
   \<and> (\<not> best_score ascii_db (cps ''Invoice Number: INV-001'') < 1 / 10
     \<and> (\<exists>r. classify ascii_db (cps ''Invoice Number: INV-001'') = Inr r
            \<and> confidence r = min (6 / 25 * 2) 1))"
  using classify_threshold[of ascii_db "[]"]
        classify_threshold[of ascii_db "cps ''Invoice Number: INV-001''"]
  by (auto simp: best_score_empty best_score_inv)

subsection \<open>The winning type\<close>

text \<open>
  Claim C3, amended.  For every input text whose best normalized score is at least 0.1,
  \<open>classify\<close> returns the type whose normalized score is highest, the first-declared one
  among the types that share the highest score, the types being scored in the declared
  order INVOICE, RECEIPT, CONTRACT, FORM, LETTER, REPORT, ID_DOCUMENT, BANK_STATEMENT,
  TAX_DOCUMENT, MEDICAL.
\<close>
theorem classify_highest_above_threshold:
  assumes "1 / 10 \<le> best_score U txt"
  shows "returns_highest_type U txt
       \<and> map fst (normalized_scores U txt) = [INVOICE, RECEIPT, CONTRACT, FORM, LETTER, REPORT,
            ID_DOCUMENT, BANK_STATEMENT, TAX_DOCUMENT, MEDICAL]"
proof -
  from classify_char[of U "txt"] obtain bt bs where
    fh: "first_highest (normalized_scores U txt) = Some (bt, bs)"
    and bs: "bs = best_score U txt"
    and cl: "classify U txt = Inr (if bs < 1 / 10
                then \<lparr> document_type = UNKNOWN, confidence = 0,
                       all_scores = scores_dict (normalized_scores U txt), keywords_found = [] \<rparr>
                else \<lparr> document_type = bt, confidence = min (bs * 2) 1,
                       all_scores = scores_dict (normalized_scores U txt),
                       keywords_found =
                         dict_get (map (\<lambda>(t, c). (DocumentType_value t,
                                          snd (score_type U (str_lower U txt) c))) build_patterns)
                                  (DocumentType_value bt) [] \<rparr>)"
    by blast
  have "\<not> bs < 1 / 10" using assms bs by simp
  then have "returns_highest_type U txt"
    using cl fh by (simp add: returns_highest_type_def highest_type_def)
  then show ?thesis
    using normalized_scores_types[of U "txt"] build_patterns_types by simp
qed

theorem classify_highest_above_threshold_witness:
  "1 / 10 \<le> best_score ascii_db (cps ''Invoice Number: INV-001'')
   \<and> returns_highest_type ascii_db (cps ''Invoice Number: INV-001'')
   \<and> highest_type ascii_db (cps ''Invoice Number: INV-001'') = Some INVOICE
   \<and> 1 / 10 \<le> best_score ascii_db (cps ''sex expiry account balance'')
   \<and> normalized_scores ascii_db (cps ''sex expiry account balance'') =
       [(INVOICE, 0), (RECEIPT, 0), (CONTRACT, 0), (FORM, 0), (LETTER, 0), (REPORT, 0),
        (ID_DOCUMENT, 2 / 17), (BANK_STATEMENT, 2 / 17), (TAX_DOCUMENT, 0), (MEDICAL, 0)]
   \<and> returns_highest_type ascii_db (cps ''sex expiry account balance'')
   \<and> highest_type ascii_db (cps ''sex expiry account balance'') = Some ID_DOCUMENT"
proof -
  have h: "1 / 10 \<le> best_score ascii_db (cps ''Invoice Number: INV-001'')"
    by (simp add: best_score_inv)
  have t: "highest_type ascii_db (cps ''Invoice Number: INV-001'') = Some INVOICE"
    by (simp add: highest_type_def first_highest_def normalized_scores_inv)
  have h': "1 / 10 \<le> best_score ascii_db (cps ''sex expiry account balance'')"
    by (simp add: best_score_def normalized_scores_tie)
  have t': "highest_type ascii_db (cps ''sex expiry account balance'') = Some ID_DOCUMENT"
    by (simp add: highest_type_def first_highest_def normalized_scores_tie)
  show ?thesis
    using h t h' t' normalized_scores_tie
      classify_highest_above_threshold[OF h] classify_highest_above_threshold[OF h']
    by simp
qed

text \<open>
  The claim as stated, for every input text, fails: on the empty text every score is 0,
  the highest-scoring type in declared order is INVOICE, and the result is \<open>UNKNOWN\<close>.
\<close>
theorem classify_highest_counterexample:
  "\<not> returns_highest_type ascii_db []
   \<and> highest_type ascii_db [] = Some INVOICE
   \<and> classify ascii_db [] =
       Inr \<lparr> document_type = UNKNOWN, confidence = 0,
             all_scores = [(''invoice'', 0), (''receipt'', 0), (''contract'', 0), (''form'', 0),
               (''letter'', 0), (''report'', 0), (''id_document'', 0), (''bank_statement'', 0),
               (''tax_document'', 0), (''medical'', 0)],
             keywords_found = [] \<rparr>"
  by (simp add: returns_highest_type_def classify_empty highest_type_def first_highest_def
      normalized_scores_empty)

subsection \<open>The normalized score of a type\<close>

text \<open>
  Claim C4.  For every input text and every type of the table, the score recorded in
  \<open>all_scores\<close> under the value of the type is the weight of the type times (the number
  of its keywords that occur in the lower-cased text, each keyword of the table counted
  once, plus twice the number of its patterns that match the lower-cased text), divided
  by (number of keywords + 2 * number of patterns), which is positive.
\<close>

theorem classify_normalized_score:
  assumes "(t, cfg) \<in> set build_patterns"
  shows "\<exists>r. classify U txt = Inr r
       \<and> 0 < length (cfg_keywords cfg) + 2 * length (cfg_patterns cfg)
       \<and> map_of (all_scores r) (DocumentType_value t) =
           Some (cfg_weight cfg
                  * (of_nat (keyword_hits U txt cfg) + 2 * of_nat (pattern_hits U txt cfg))
                  / of_nat (length (cfg_keywords cfg) + 2 * length (cfg_patterns cfg)))"
proof -
  from classify_all_scores[of U "txt"] obtain r where
    cl: "classify U txt = Inr r" and sc: "all_scores r = scores_dict (normalized_scores U txt)"
    by blast
  have dl: "distinct (cfg_keywords cfg)" "distinct (cfg_patterns cfg)"
    using build_patterns_distinct_lists assms by (auto simp: list_all_iff)
  have sz: "0 < length (cfg_keywords cfg) + length (cfg_patterns cfg) * 2"
    using build_patterns_sizes assms by (auto simp: list_all_iff)
  have h: "raw_hits U (str_lower U txt) cfg = keyword_hits U txt cfg + 2 * pattern_hits U txt cfg"
    by (simp add: raw_hits_def keyword_hits_def pattern_hits_def card_filter_distinct dl)
  have val: "fst (score_type U (str_lower U txt) cfg) =
           cfg_weight cfg
                  * (of_nat (keyword_hits U txt cfg) + 2 * of_nat (pattern_hits U txt cfg))
                  / of_nat (length (cfg_keywords cfg) + 2 * length (cfg_patterns cfg))"
    using sz by (simp add: score_type_fst h mult.commute)
  have dsc: "distinct (map fst (scores_dict (normalized_scores U txt)))"
    using build_patterns_distinct
    by (simp add: scores_dict_def normalized_scores_def nscores_def comp_def case_prod_beta)
  have "(DocumentType_value t, fst (score_type U (str_lower U txt) cfg))
          \<in> set (scores_dict (normalized_scores U txt))"
    using assms by (force simp: scores_dict_def normalized_scores_def nscores_def)
  then have "map_of (all_scores r) (DocumentType_value t) = Some (fst (score_type U (str_lower U txt) cfg))"
    unfolding sc using dsc by (rule map_of_is_SomeI[rotated])
  then show ?thesis using cl sz val by (simp add: mult.commute)
qed

theorem classify_normalized_score_witness:
  "(INVOICE, snd (hd build_patterns)) \<in> set build_patterns
   \<and> keyword_hits ascii_db (cps ''Invoice Number: INV-001'') (snd (hd build_patterns)) = 2
   \<and> pattern_hits ascii_db (cps ''Invoice Number: INV-001'') (snd (hd build_patterns)) = 2
   \<and> length (cfg_keywords (snd (hd build_patterns))) = 15
   \<and> length (cfg_patterns (snd (hd build_patterns))) = 5
   \<and> cfg_weight (snd (hd build_patterns)) = 1
   \<and> (\<exists>r. classify ascii_db (cps ''Invoice Number: INV-001'') = Inr r
          \<and> map_of (all_scores r) ''invoice'' = Some (1 * (2 + 2 * 2) / (15 + 2 * 5)))"
proof -
  let ?c = "snd (hd build_patterns)"
  let ?t = "cps ''Invoice Number: INV-001''"
  have mem: "(INVOICE, ?c) \<in> set build_patterns" by (simp add: build_patterns_def)
  have dl: "distinct (cfg_keywords ?c)" "distinct (cfg_patterns ?c)"
    using build_patterns_distinct_lists mem by (auto simp: list_all_iff)
  have k: "keyword_hits ascii_db ?t ?c = 2"
    unfolding keyword_hits_def card_filter_distinct[OF dl(1)]
    by (simp add: build_patterns_def regex_eval)
  have p: "pattern_hits ascii_db ?t ?c = 2"
    unfolding pattern_hits_def card_filter_distinct[OF dl(2)]
    by (simp add: build_patterns_def regex_eval)
  have l: "length (cfg_keywords ?c) = 15" "length (cfg_patterns ?c) = 5" "cfg_weight ?c = 1"
    by (simp_all add: build_patterns_def)
  show ?thesis
    using classify_normalized_score[OF mem, of ascii_db ?t] mem k p l by simp
qed

section \<open>Properties of the language detector\<close>

lemma Language_of_value: "Language_of (Language_value l) = Inr l"
  by (cases l) (simp_all add: Language_of_def Language_members_def)

lemma fold_dict_set_distinct:
  assumes "distinct (map kf xs)" and "\<forall>x \<in> set xs. kf x \<notin> fst ` set d"
  shows "fold (\<lambda>x d. dict_set (kf x) (vf x) d) xs d = d @ map (\<lambda>x. (kf x, vf x)) xs"
  using assms
proof (induction xs arbitrary: d)
  case Nil
  then show ?case by simp
next
  case (Cons x xs)
  have fresh: "kf x \<notin> fst ` set d" using Cons.prems(2) by simp
  have 1: "distinct (map kf xs)" using Cons.prems(1) by simp
  have 2: "\<forall>y \<in> set xs. kf y \<notin> fst ` set (d @ [(kf x, vf x)])"
    using Cons.prems by (auto simp: image_iff)
  show ?case using Cons.IH[OF 1 2] by (simp add: dict_set_fresh[OF fresh])
qed

lemma build_language_patterns_langs:
  "map fst build_language_patterns = [ENGLISH, SPANISH, FRENCH, GERMAN, ITALIAN, PORTUGUESE, DUTCH,
     RUSSIAN, CHINESE, JAPANESE, KOREAN, ARABIC, HINDI, THAI]"
  by (simp add: build_language_patterns_def)

lemma build_language_patterns_distinct:
  "distinct (map (\<lambda>p. Language_value (fst p)) build_language_patterns)"
proof -
  have "map (\<lambda>p. Language_value (fst p)) build_language_patterns
          = map Language_value (map fst build_language_patterns)"
    by simp
  then show ?thesis unfolding build_language_patterns_langs by simp
qed

lemma build_language_patterns_sizes:
  "list_all (\<lambda>(l, c). 0 < length (common_words c) + length (lang_patterns c) * 5
      \<and> distinct (common_words c)) build_language_patterns"
  by (simp add: build_language_patterns_def cps_def)

lemma score_languages_eq:
  "score_languages U build_language_patterns txt tx scr =
     map (\<lambda>(l, c). (Language_value l, language_score U txt tx scr c)) build_language_patterns"
proof -
  have "score_languages U build_language_patterns txt tx scr =
          fold (\<lambda>p d. dict_set (Language_value (fst p)) (language_score U txt tx scr (snd p)) d)
               build_language_patterns []"
    by (simp add: score_languages_def case_prod_unfold)
  also have "\<dots> = [] @ map (\<lambda>p. (Language_value (fst p), language_score U txt tx scr (snd p)))
                         build_language_patterns"
    by (rule fold_dict_set_distinct[OF build_language_patterns_distinct]) simp
  finally show ?thesis by (simp add: case_prod_beta)
qed

lemma word_fold:
  "fold (\<lambda>word score. if P word then score + 1 else score) wl (s :: rat)
     = s + of_nat (length (filter P wl))"
  by (induction wl arbitrary: s) (auto simp: algebra_simps)

lemma pattern_fold:
  "fold (\<lambda>pattern score. score + of_nat (f pattern) / 2) ps (s :: rat)
     = s + of_nat (sum_list (map f ps)) / 2"
  by (induction ps arbitrary: s) (auto simp: algebra_simps add_divide_distrib)

lemma language_score_eq:
  "language_score U txt tx scr c =
     (if 0 < length (common_words c) + length (lang_patterns c) * 5
      then (of_nat (length (filter (\<lambda>w. re_matches U False (word_pattern w) tx) (common_words c)))
             + of_nat (sum_list (map (\<lambda>p. findall_count U True p txt) (lang_patterns c))) / 2)
           * (if script c = scr then 3 / 2 else 1)
           / of_nat (length (common_words c) + length (lang_patterns c) * 5)
      else 0)"
  by (simp add: language_score_def Let_def word_fold pattern_fold)

lemma language_score_nonneg: "0 \<le> language_score U txt tx scr c"
  by (simp add: language_score_eq)

lemma sorted_desc_sorted: "sorted_wrt (\<lambda>a b. snd b \<le> snd a) (sorted_desc xs)"
proof -
  have "sorted (map (\<lambda>x. - snd x) (sorted_desc xs))"
    unfolding sorted_desc_def by (rule sorted_sort_key)
  then show ?thesis by (simp add: sorted_map)
qed

lemma sorted_desc_mset: "mset (sorted_desc xs) = mset xs"
  by (simp add: sorted_desc_def)

lemma insort_key_map:
  "insort_key f (g x) (map g ys) = map g (insort_key (\<lambda>y. f (g y)) x ys)"
  by (induction ys) auto

lemma sorted_desc_map:
  "sorted_desc (map (\<lambda>(k, v). (g k, v)) xs) = map (\<lambda>(k, v). (g k, v)) (sorted_desc xs)"
proof (induction xs)
  case Nil
  then show ?case by (simp add: sorted_desc_def)
next
  case (Cons x xs)
  obtain k v where x: "x = (k, v)" by (cases x)
  have "insort_key (\<lambda>y. - snd y) ((\<lambda>(k, v). (g k, v)) x) (map (\<lambda>(k, v). (g k, v)) (sort_key (\<lambda>y. - snd y) xs))
      = map (\<lambda>(k, v). (g k, v)) (insort_key (\<lambda>y. - snd ((\<lambda>(k, v). (g k, v)) y)) x (sort_key (\<lambda>y. - snd y) xs))"
    by (rule insort_key_map)
  moreover have "(\<lambda>y. - snd ((\<lambda>(k, v). (g k, v)) y)) = (\<lambda>y :: 'b \<times> rat. - snd y)"
    by (auto simp: fun_eq_iff)
  ultimately show ?case using Cons.IH by (simp add: sorted_desc_def)
qed

lemma sorted_desc_hd:
  assumes "xs \<noteq> []"
  shows "first_highest xs = Some (hd (sorted_desc xs))"
  using assms
proof (induction xs)
  case Nil
  then show ?case by simp
next
  case (Cons x xs)
  show ?case
  proof (cases "xs = []")
    case True
    then show ?thesis by (cases x) (simp add: first_highest_def sorted_desc_def)
  next
    case False
    have ne: "sorted_desc xs \<noteq> []"
      using False by (cases xs) (simp_all add: sorted_desc_def insort_not_Nil)
    then obtain h t where st: "sorted_desc xs = h # t" by (cases "sorted_desc xs") auto
    have st': "sort_key (\<lambda>x. - snd x) xs = h # t" using st by (simp add: sorted_desc_def)
    have IH: "first_highest xs = Some h" using Cons.IH[OF False] st by simp
    have hmem: "h \<in> set xs" and hmax: "\<forall>y \<in> set xs. snd y \<le> snd h"
      using IH unfolding first_highest_def
      by (auto simp: find_Some_iff list_all_iff case_prod_beta)
    show ?thesis
    proof (cases "snd h \<le> snd x")
      case True
      have "hd (sorted_desc (x # xs)) = x"
        using True by (simp add: sorted_desc_def st')
      moreover have "first_highest (x # xs) = Some x"
        using True hmax by (cases x) (auto simp: first_highest_def list_all_iff)
      ultimately show ?thesis by simp
    next
      case less: False
      have hd: "hd (sorted_desc (x # xs)) = h"
        using less by (simp add: sorted_desc_def st')
      have nx: "\<not> (case x of (k, v) \<Rightarrow> list_all (\<lambda>(k', v'). v' \<le> v) (x # xs))"
        using less hmem by (cases x; cases h) (auto simp: list_all_iff)
      have "find (\<lambda>(k, v). list_all (\<lambda>(k', v'). v' \<le> v) (x # xs)) xs
          = find (\<lambda>(k, v). list_all (\<lambda>(k', v'). v' \<le> v) xs) xs"
      proof (rule find_cong[OF refl])
        fix y assume "y \<in> set xs"
        show "(case y of (k, v) \<Rightarrow> list_all (\<lambda>(k', v'). v' \<le> v) (x # xs))
            = (case y of (k, v) \<Rightarrow> list_all (\<lambda>(k', v'). v' \<le> v) xs)"
          using less hmem hmax by (cases y; cases x; cases h) (force simp: list_all_iff)
      qed
      then have "first_highest (x # xs) = first_highest xs"
        using nx by (simp add: first_highest_def)
      then show ?thesis using IH hd by simp
    qed
  qed
qed

lemma collect_secondary_eq:
  "collect_secondary (map (\<lambda>(l, v). (Language_value l, v)) xs) acc
     = Inr (acc @ map fst (filter (\<lambda>p. 1 / 10 < snd p) xs))"
  by (induction xs arbitrary: acc) (auto simp: Language_of_value)


lemma blank_iff: "(txt = [] \<or> length (strip txt) = 0) \<longleftrightarrow> blank txt"
proof -
  have a: "(\<forall>x \<in> set (dropWhile is_space txt). is_space x) \<longleftrightarrow> (\<forall>x \<in> set txt. is_space x)"
  proof
    assume all: "\<forall>x \<in> set (dropWhile is_space txt). is_space x"
    have "dropWhile is_space txt = []"
    proof (rule ccontr)
      assume ne: "dropWhile is_space txt \<noteq> []"
      then have "\<not> is_space (hd (dropWhile is_space txt))" by (rule hd_dropWhile)
      moreover have "hd (dropWhile is_space txt) \<in> set (dropWhile is_space txt)"
        using ne by (rule hd_in_set)
      ultimately show False using all by blast
    qed
    then show "\<forall>x \<in> set txt. is_space x" by (simp only: dropWhile_eq_Nil_conv)
  next
    assume "\<forall>x \<in> set txt. is_space x"
    then show "\<forall>x \<in> set (dropWhile is_space txt). is_space x"
      by (auto dest: set_dropWhileD)
  qed
  have "strip txt = [] \<longleftrightarrow> (\<forall>x \<in> set (dropWhile is_space txt). is_space x)"
    unfolding strip_def by simp
  then have "strip txt = [] \<longleftrightarrow> blank txt"
    using a by (simp add: blank_def list_all_iff)
  moreover have "txt = [] \<Longrightarrow> blank txt" by (simp add: blank_def)
  ultimately show ?thesis by auto
qed

lemma script_of_code_None: "script_of_code c = None \<longleftrightarrow> \<not> in_script_range c"
  by (auto simp: script_of_code_def in_script_range_def)

lemma script_of_code_tag: "script_of_code c = Some tag \<Longrightarrow> tag \<in> set script_tags"
  by (auto simp: script_of_code_def script_tags_def split: if_splits)

lemma dict_set_keys: "k \<in> fst ` set d \<Longrightarrow> map fst (dict_set k v d) = map fst d"
  by (induction d) (auto simp: rev_image_eqI)

lemma count_fold_keys:
  assumes "map fst d = script_tags"
  shows "map fst (fold (\<lambda>char script_counts.
             case script_of_code char of
               None \<Rightarrow> script_counts
             | Some tag \<Rightarrow> dict_set tag (dict_get script_counts tag 0 + 1) script_counts)
          cs d) = script_tags"
  using assms
proof (induction cs arbitrary: d)
  case Nil
  then show ?case by simp
next
  case (Cons c cs)
  show ?case
  proof (cases "script_of_code c")
    case None
    then show ?thesis using Cons by simp
  next
    case (Some tag)
    have "tag \<in> set (map fst d)" using script_of_code_tag[OF Some] Cons.prems by simp
    then have "tag \<in> fst ` set d" by simp
    then have "map fst (dict_set tag (dict_get d tag 0 + 1) d) = script_tags"
      using Cons.prems by (simp add: dict_set_keys)
    then show ?thesis using Cons.IH Some by simp
  qed
qed

lemma count_scripts_keys: "map fst (count_scripts txt) = script_tags"
  unfolding count_scripts_def
  by (rule count_fold_keys) (simp add: initial_script_counts_def script_tags_def)

lemma count_scripts_none:
  "\<forall>c \<in> set cs. script_of_code c = None \<Longrightarrow> count_scripts cs = initial_script_counts"
  unfolding count_scripts_def by (induction cs) auto

lemma max_from_mem: "max_from kv d \<in> fst ` set (kv # d)"
  by (induction kv d rule: max_from.induct) auto

lemma detect_script_tag: "\<exists>tag. detect_script txt = Inr tag \<and> tag \<in> set script_tags"
proof -
  obtain kv d where c: "count_scripts txt = kv # d"
    using count_scripts_keys[of "txt"] by (cases "count_scripts txt") (auto simp: script_tags_def)
  have "max_from kv d \<in> set (map fst (count_scripts txt))"
    using max_from_mem[of kv d] c by simp
  then have "max_from kv d \<in> set script_tags" unfolding count_scripts_keys .
  then show ?thesis by (simp add: detect_script_def c)
qed

lemma the_script_eq: "detect_script txt = Inr (the_script txt)"
  using detect_script_tag[of "txt"] by (auto simp: the_script_def)

lemma the_script_tag: "the_script txt \<in> set script_tags"
  using detect_script_tag[of "txt"] by (auto simp: the_script_def)

lemma the_script_latin:
  assumes "\<forall>c \<in> set txt. \<not> in_script_range c"
  shows "the_script txt = ''latin''"
proof -
  have "count_scripts txt = initial_script_counts"
    using assms by (intro count_scripts_none) (simp add: script_of_code_None)
  then show ?thesis
    by (simp add: the_script_def detect_script_def initial_script_counts_def)
qed

lemma language_scores_ne: "language_scores U txt \<noteq> []"
  by (simp add: language_scores_def build_language_patterns_def)

lemma language_scores_nonneg: "(l, v) \<in> set (language_scores U txt) \<Longrightarrow> 0 \<le> v"
  by (auto simp: language_scores_def language_score_nonneg)

lemma language_scores_known: "(l, v) \<in> set (language_scores U txt) \<Longrightarrow> l \<noteq> UNKNOWN_LANGUAGE"
proof -
  assume "(l, v) \<in> set (language_scores U txt)"
  then have "l \<in> set (map fst (language_scores U txt))" by force
  moreover have "map fst (language_scores U txt) = map fst build_language_patterns"
    by (simp add: language_scores_def case_prod_beta comp_def)
  ultimately show ?thesis unfolding build_language_patterns_langs by auto
qed

lemma detect_char:
  assumes nb: "\<not> blank txt"
  shows "detect U txt =
     Inr (if 0 < snd (hd (ranked (language_scores U txt)))
          then \<lparr> primary_language = fst (hd (ranked (language_scores U txt))),
                 lang_confidence = min (snd (hd (ranked (language_scores U txt))) * 2) 1,
                 lang_all_scores = lang_dict (language_scores U txt),
                 script_detected = the_script txt,
                 is_multilingual = (filter (\<lambda>p. 1 / 10 < snd p)
                                      (take 3 (drop 1 (ranked (language_scores U txt)))) \<noteq> []),
                 secondary_languages = map fst (filter (\<lambda>p. 1 / 10 < snd p)
                                      (take 3 (drop 1 (ranked (language_scores U txt))))) \<rparr>
          else \<lparr> primary_language = UNKNOWN_LANGUAGE, lang_confidence = 0,
                 lang_all_scores = lang_dict (language_scores U txt),
                 script_detected = the_script txt,
                 is_multilingual = False, secondary_languages = [] \<rparr>)"
proof -
  let ?ls = "language_scores U txt"
  let ?r = "ranked ?ls"
  have nb': "\<not> (txt = [] \<or> length (strip txt) = 0)" using nb blank_iff by blast
  have sc: "score_languages U build_language_patterns txt (str_lower U txt) (the_script txt)
              = lang_dict ?ls"
    by (simp add: score_languages_eq lang_dict_def language_scores_def case_prod_beta)
  have sd: "sorted_desc (lang_dict ?ls) = map (\<lambda>(l, v). (Language_value l, v)) ?r"
    unfolding lang_dict_def ranked_def by (rule sorted_desc_map)
  have rne: "?r \<noteq> []"
    using language_scores_ne[of U "txt"]
    by (cases ?ls) (simp_all add: ranked_def sorted_desc_def insort_not_Nil)
  then obtain h t where r: "?r = h # t" by (cases ?r) auto
  obtain hl hv where h: "h = (hl, hv)" by (cases h)
  have td: "take 3 (drop 1 (map (\<lambda>(l, v). (Language_value l, v)) ?r))
              = map (\<lambda>(l, v). (Language_value l, v)) (take 3 (drop 1 ?r))"
    by (simp add: take_map drop_map)
  show ?thesis
    using nb' r h
    by (simp add: detect_def detect_with_def Let_def the_script_eq sc sd take_map
        collect_secondary_eq Language_of_value)
qed

lemmas lang_eval = language_scores_def build_language_patterns_def language_score_def
  word_pattern_def findall_count_def count_from.simps the_script_def detect_script_def
  count_scripts_def script_of_code_def initial_script_counts_def dict_get_def

lemma language_scores_mixed:
  "language_scores ascii_db (cps ''is in de'') =
     [(ENGLISH, 3 / 20), (SPANISH, 3 / 70), (FRENCH, 1 / 20), (GERMAN, 1 / 30),
      (ITALIAN, 0), (PORTUGUESE, 1 / 20), (DUTCH, 3 / 20), (RUSSIAN, 0),
      (CHINESE, 0), (JAPANESE, 0), (KOREAN, 0), (ARABIC, 0), (HINDI, 0), (THAI, 0)]"
  by (simp add: lang_eval regex_eval)

lemma language_scores_x:
  "language_scores ascii_db (cps ''x'') =
     [(ENGLISH, 0), (SPANISH, 0), (FRENCH, 0), (GERMAN, 0), (ITALIAN, 0),
      (PORTUGUESE, 0), (DUTCH, 0), (RUSSIAN, 0), (CHINESE, 0), (JAPANESE, 0),
      (KOREAN, 0), (ARABIC, 0), (HINDI, 0), (THAI, 0)]"
  by (simp add: lang_eval regex_eval)

lemma not_blank_mixed: "\<not> blank (cps ''is in de'')"
  by (simp add: blank_def cps_def is_space_def)

lemma not_blank_x: "\<not> blank (cps ''x'')"
  by (simp add: blank_def cps_def is_space_def)

lemma ranked_mixed:
  "ranked (language_scores ascii_db (cps ''is in de'')) =
     [(ENGLISH, 3 / 20), (DUTCH, 3 / 20), (FRENCH, 1 / 20), (PORTUGUESE, 1 / 20),
      (SPANISH, 3 / 70), (GERMAN, 1 / 30), (ITALIAN, 0), (RUSSIAN, 0),
      (CHINESE, 0), (JAPANESE, 0), (KOREAN, 0), (ARABIC, 0), (HINDI, 0), (THAI, 0)]"
  by (simp add: language_scores_mixed ranked_def sorted_desc_def)

lemma the_script_mixed: "the_script (cps ''is in de'') = ''latin''"
  by (simp add: the_script_def detect_script_def count_scripts_def script_of_code_def
      initial_script_counts_def dict_get_def cps_def)

lemma detect_mixed:
  "detect ascii_db (cps ''is in de'') =
     Inr \<lparr> primary_language = ENGLISH, lang_confidence = 3 / 10,
           lang_all_scores =
             [(''en'', 3 / 20), (''es'', 3 / 70), (''fr'', 1 / 20), (''de'', 1 / 30), (''it'', 0),
              (''pt'', 1 / 20), (''nl'', 3 / 20), (''ru'', 0), (''zh'', 0), (''ja'', 0),
              (''ko'', 0), (''ar'', 0), (''hi'', 0), (''th'', 0)],
           script_detected = ''latin'', is_multilingual = True,
           secondary_languages = [DUTCH] \<rparr>"
  unfolding detect_char[OF not_blank_mixed] ranked_mixed the_script_mixed
  by (simp add: language_scores_mixed lang_dict_def)

subsection \<open>The UNKNOWN language\<close>

text \<open>
  Claim C5.  For every input text \<open>detect\<close> returns a result; the result has primary
  language \<open>UNKNOWN\<close> with confidence 0 and no secondary languages exactly when the text
  is blank (empty or whitespace only) or every per-language score is zero; otherwise the
  primary language is the top scorer (the first-declared one among equals) and the
  confidence is \<open>min (top_score * 2) 1\<close>.
\<close>

theorem detect_unknown_iff:
  "\<exists>r. detect U txt = Inr r
     \<and> ((primary_language r = UNKNOWN_LANGUAGE \<and> lang_confidence r = 0 \<and> secondary_languages r = [])
          \<longleftrightarrow> (blank txt \<or> (\<forall>(l, s) \<in> set (language_scores U txt). s = 0)))
     \<and> (\<not> (blank txt \<or> (\<forall>(l, s) \<in> set (language_scores U txt). s = 0)) \<longrightarrow>
          (\<exists>top. first_highest (language_scores U txt) = Some (primary_language r, top)
              \<and> lang_confidence r = min (top * 2) 1))"
proof (cases "blank txt")
  case True
  then have "txt = [] \<or> length (strip txt) = 0" using blank_iff by blast
  then have "detect U txt = Inr \<lparr> primary_language = UNKNOWN_LANGUAGE, lang_confidence = 0,
        lang_all_scores = [], script_detected = ''unknown'', is_multilingual = False,
        secondary_languages = [] \<rparr>"
    unfolding detect_def detect_with_def by (simp only: if_True)
  then show ?thesis using True by simp
next
  case False
  let ?ls = "language_scores U txt"
  obtain hl hv where fh: "first_highest ?ls = Some (hl, hv)" and h: "hd (ranked ?ls) = (hl, hv)"
    using sorted_desc_hd[OF language_scores_ne, of U "txt"]
    by (cases "hd (ranked ?ls)") (simp add: ranked_def)
  have mem: "(hl, hv) \<in> set ?ls" and top: "\<forall>(l, s) \<in> set ?ls. s \<le> hv"
    using fh first_highest_Max[OF fh] unfolding first_highest_def
    by (auto simp: find_Some_iff list_all_iff)
  have nn: "\<forall>(l, s) \<in> set ?ls. 0 \<le> s" using language_scores_nonneg by blast
  have kn: "hl \<noteq> UNKNOWN_LANGUAGE" using language_scores_known[OF mem] .
  have zero: "(\<forall>(l, s) \<in> set ?ls. s = 0) \<longleftrightarrow> \<not> 0 < hv"
  proof
    assume "\<forall>(l, s) \<in> set ?ls. s = 0"
    then show "\<not> 0 < hv" using mem by auto
  next
    assume "\<not> 0 < hv"
    then show "\<forall>(l, s) \<in> set ?ls. s = 0" using top nn by fastforce
  qed
  show ?thesis
  proof (cases "0 < hv")
    case True
    then have "0 < min (hv * 2) 1" by simp
    then show ?thesis
      using detect_char[OF False, of U] h fh True kn zero False by simp
  next
    case nz: False
    then show ?thesis
      using detect_char[OF False, of U] h zero False by simp
  qed
qed

theorem detect_unknown_iff_witness:
  "(\<exists>r. detect ascii_db [] = Inr r \<and> blank []
        \<and> primary_language r = UNKNOWN_LANGUAGE \<and> lang_confidence r = 0 \<and> secondary_languages r = [])
   \<and> (\<exists>r. detect ascii_db (cps ''x'') = Inr r \<and> \<not> blank (cps ''x'')
        \<and> (\<forall>(l, s) \<in> set (language_scores ascii_db (cps ''x'')). s = 0)
        \<and> primary_language r = UNKNOWN_LANGUAGE \<and> lang_confidence r = 0 \<and> secondary_languages r = [])
   \<and> (\<exists>r. detect ascii_db (cps ''is in de'') = Inr r \<and> \<not> blank (cps ''is in de'')
        \<and> \<not> (\<forall>(l, s) \<in> set (language_scores ascii_db (cps ''is in de'')). s = 0)
        \<and> first_highest (language_scores ascii_db (cps ''is in de'')) = Some (ENGLISH, 3 / 20)
        \<and> primary_language r = ENGLISH \<and> lang_confidence r = min (3 / 20 * 2) 1)"
proof -
  have b: "blank []" by (simp add: blank_def)
  have z: "\<forall>(l, s) \<in> set (language_scores ascii_db (cps ''x'')). s = 0"
    by (simp add: language_scores_x)
  have nz: "\<not> (\<forall>(l, s) \<in> set (language_scores ascii_db (cps ''is in de'')). s = 0)"
    by (simp add: language_scores_mixed)
  have fh: "first_highest (language_scores ascii_db (cps ''is in de'')) = Some (ENGLISH, 3 / 20)"
    by (simp add: language_scores_mixed first_highest_def)
  show ?thesis
    using detect_unknown_iff[of ascii_db "[]"] detect_unknown_iff[of ascii_db "cps ''x''"]
      detect_unknown_iff[of ascii_db "cps ''is in de''"] b z nz fh not_blank_x not_blank_mixed
    by auto
qed


subsection \<open>The score of a language\<close>

text \<open>
  Claim C6.  For every text that is not blank and every language of the table, the score
  recorded in \<open>all_scores\<close> under the code of the language is (the number of its common
  words found as whole words in the lower-cased text, plus half the number of occurrences
  of its patterns in the text), times 1.5 when the script tag of the language is the
  script detected for the text, divided by (number of common words + 5 * number of
  patterns), which is positive.
\<close>

theorem detect_language_score:
  assumes nb: "\<not> blank txt" and mem: "(lang, cfg) \<in> set build_language_patterns"
  shows "\<exists>r. detect U txt = Inr r
       \<and> 0 < length (common_words cfg) + 5 * length (lang_patterns cfg)
       \<and> map_of (lang_all_scores r) (Language_value lang) =
           Some ((of_nat (word_hits U txt cfg) + of_nat (pattern_occurrences U txt cfg) / 2)
                 * (if script cfg = script_detected r then 3 / 2 else 1)
                 / of_nat (length (common_words cfg) + 5 * length (lang_patterns cfg)))"
proof -
  let ?ls = "language_scores U txt"
  obtain r where r: "detect U txt = Inr r" and sc: "lang_all_scores r = lang_dict ?ls"
    and scr: "script_detected r = the_script txt"
    using detect_char[OF nb, of U] by (cases "0 < snd (hd (ranked ?ls))") simp_all
  have sz: "0 < length (common_words cfg) + length (lang_patterns cfg) * 5"
    and dw: "distinct (common_words cfg)"
    using build_language_patterns_sizes mem by (auto simp: list_all_iff)
  have wh: "length (filter (\<lambda>w. re_matches U False (word_pattern w) (str_lower U txt)) (common_words cfg))
              = word_hits U txt cfg"
    by (simp add: word_hits_def card_filter_distinct[OF dw])
  have val: "language_score U txt (str_lower U txt) (the_script txt) cfg =
       (of_nat (word_hits U txt cfg) + of_nat (pattern_occurrences U txt cfg) / 2)
                 * (if script cfg = the_script txt then 3 / 2 else 1)
                 / of_nat (length (common_words cfg) + 5 * length (lang_patterns cfg))"
    using sz by (simp add: language_score_eq wh pattern_occurrences_def mult.commute)
  have dk: "distinct (map fst (lang_dict ?ls))"
    using build_language_patterns_distinct
    by (simp add: lang_dict_def language_scores_def comp_def case_prod_beta)
  have "(Language_value lang, language_score U txt (str_lower U txt) (the_script txt) cfg)
          \<in> set (lang_dict ?ls)"
    using mem by (force simp: lang_dict_def language_scores_def)
  then have "map_of (lang_all_scores r) (Language_value lang)
               = Some (language_score U txt (str_lower U txt) (the_script txt) cfg)"
    unfolding sc using dk by (rule map_of_is_SomeI[rotated])
  then show ?thesis using r sz val scr by (simp add: mult.commute)
qed

theorem detect_language_score_witness:
  "\<not> blank (cps ''is in de'')
   \<and> (ENGLISH, hd (map snd build_language_patterns)) \<in> set build_language_patterns
   \<and> word_hits ascii_db (cps ''is in de'') (hd (map snd build_language_patterns)) = 2
   \<and> pattern_occurrences ascii_db (cps ''is in de'') (hd (map snd build_language_patterns)) = 1
   \<and> length (common_words (hd (map snd build_language_patterns))) = 10
   \<and> length (lang_patterns (hd (map snd build_language_patterns))) = 3
   \<and> script (hd (map snd build_language_patterns)) = ''latin''
   \<and> (\<exists>r. detect ascii_db (cps ''is in de'') = Inr r \<and> script_detected r = ''latin''
          \<and> map_of (lang_all_scores r) ''en'' = Some ((2 + 1 / 2) * (3 / 2) / (10 + 5 * 3)))"
proof -
  let ?c = "hd (map snd build_language_patterns)"
  let ?t = "cps ''is in de''"
  have mem: "(ENGLISH, ?c) \<in> set build_language_patterns"
    by (simp add: build_language_patterns_def)
  have dw: "distinct (common_words ?c)"
    using build_language_patterns_sizes mem by (auto simp: list_all_iff)
  have w: "word_hits ascii_db ?t ?c = 2"
    unfolding word_hits_def card_filter_distinct[OF dw]
    by (simp add: build_language_patterns_def word_pattern_def regex_eval)
  have p: "pattern_occurrences ascii_db ?t ?c = 1"
    unfolding pattern_occurrences_def
    by (simp add: build_language_patterns_def findall_count_def count_from.simps regex_eval)
  have l: "length (common_words ?c) = 10" "length (lang_patterns ?c) = 3" "script ?c = ''latin''"
    by (simp_all add: build_language_patterns_def)
  show ?thesis
    using detect_language_score[OF not_blank_mixed mem, of ascii_db] not_blank_mixed mem w p l
    by (simp add: detect_mixed)
qed

subsection \<open>Secondary languages\<close>

text \<open>
  Claim C7.  Whenever \<open>detect\<close> returns a primary language other than \<open>UNKNOWN\<close>, the
  secondary languages are exactly the languages ranked second to fourth by descending
  score whose score exceeds 0.1, in rank order, so there are at most three of them, and
  \<open>is_multilingual\<close> holds exactly when there is one.  The ranking is the stable
  descending sort of the recorded scores.
\<close>

theorem detect_secondary:
  assumes r: "detect U txt = Inr r" and pk: "primary_language r \<noteq> UNKNOWN_LANGUAGE"
  shows "secondary_languages r =
            map fst (filter (\<lambda>p. 1 / 10 < snd p) (take 3 (drop 1 (ranked (language_scores U txt)))))
       \<and> length (secondary_languages r) \<le> 3
       \<and> (is_multilingual r \<longleftrightarrow> secondary_languages r \<noteq> [])
       \<and> lang_all_scores r = lang_dict (language_scores U txt)
       \<and> sorted_wrt (\<lambda>a b. snd b \<le> snd a) (ranked (language_scores U txt))
       \<and> mset (ranked (language_scores U txt)) = mset (language_scores U txt)"
proof -
  let ?ls = "language_scores U txt"
  have nb: "\<not> blank txt"
  proof
    assume "blank txt"
    then have "txt = [] \<or> length (strip txt) = 0" using blank_iff by blast
    then have "detect U txt = Inr \<lparr> primary_language = UNKNOWN_LANGUAGE, lang_confidence = 0,
        lang_all_scores = [], script_detected = ''unknown'', is_multilingual = False,
        secondary_languages = [] \<rparr>"
      unfolding detect_def detect_with_def by (simp only: if_True)
    then show False using r pk by simp
  qed
  have pos: "0 < snd (hd (ranked ?ls))"
  proof (rule ccontr)
    assume "\<not> 0 < snd (hd (ranked ?ls))"
    then show False using detect_char[OF nb, of U] r pk by simp
  qed
  have len: "length (filter (\<lambda>p. 1 / 10 < snd p) (take 3 (drop 1 (ranked ?ls)))) \<le> 3"
    by (rule order_trans[OF length_filter_le]) simp
  have "sorted_wrt (\<lambda>a b. snd b \<le> snd a) (ranked ?ls)" "mset (ranked ?ls) = mset ?ls"
    unfolding ranked_def by (rule sorted_desc_sorted, rule sorted_desc_mset)
  then show ?thesis
    using detect_char[OF nb, of U] r pos len by auto
qed

theorem detect_secondary_witness:
  "detect ascii_db (cps ''is in de'') =
     Inr \<lparr> primary_language = ENGLISH, lang_confidence = 3 / 10,
           lang_all_scores =
             [(''en'', 3 / 20), (''es'', 3 / 70), (''fr'', 1 / 20), (''de'', 1 / 30), (''it'', 0),
              (''pt'', 1 / 20), (''nl'', 3 / 20), (''ru'', 0), (''zh'', 0), (''ja'', 0),
              (''ko'', 0), (''ar'', 0), (''hi'', 0), (''th'', 0)],
           script_detected = ''latin'', is_multilingual = True,
           secondary_languages = [DUTCH] \<rparr>
   \<and> ENGLISH \<noteq> UNKNOWN_LANGUAGE
   \<and> take 3 (drop 1 (ranked (language_scores ascii_db (cps ''is in de''))))
        = [(DUTCH, 3 / 20), (FRENCH, 1 / 20), (PORTUGUESE, 1 / 20)]
   \<and> [DUTCH] = map fst (filter (\<lambda>p. 1 / 10 < snd p)
                   (take 3 (drop 1 (ranked (language_scores ascii_db (cps ''is in de''))))))"
  using detect_secondary[OF detect_mixed]
  by (simp add: detect_mixed ranked_mixed)

subsection \<open>The detected script\<close>

text \<open>
  Claim C10.  For every text that is not blank, the script reported by \<open>detect\<close> is one
  of the ten tags of \<open>_detect_script\<close>, never \<open>unknown\<close>, and it is \<open>latin\<close> when
  no character of the text lies in any of the ten code-point ranges.
\<close>

theorem detect_script_tag_of_text:
  assumes nb: "\<not> blank txt"
  shows "\<exists>r. detect U txt = Inr r
       \<and> script_detected r \<in> set [''latin'', ''cyrillic'', ''arabic'', ''cjk'', ''hangul'',
            ''devanagari'', ''thai'', ''japanese'', ''hebrew'', ''greek'']
       \<and> script_detected r \<noteq> ''unknown''
       \<and> ((\<forall>c \<in> set txt. \<not> in_script_range c) \<longrightarrow> script_detected r = ''latin'')"
proof -
  obtain r where r: "detect U txt = Inr r" and scr: "script_detected r = the_script txt"
    using detect_char[OF nb, of U]
    by (cases "0 < snd (hd (ranked (language_scores U txt)))") simp_all
  have tag: "the_script txt \<in> set [''latin'', ''cyrillic'', ''arabic'', ''cjk'', ''hangul'',
            ''devanagari'', ''thai'', ''japanese'', ''hebrew'', ''greek'']"
    using the_script_tag[of "txt"] by (simp add: script_tags_def)
  then have nu: "the_script txt \<noteq> ''unknown''" by auto
  show ?thesis using r scr tag nu the_script_latin[of "txt"] by auto
qed

theorem detect_script_tag_of_text_witness:
  "\<not> blank [0x20AC] \<and> \<not> in_script_range 0x20AC
   \<and> (\<exists>r. detect ascii_db [0x20AC] = Inr r \<and> script_detected r = ''latin'')"
proof -
  have nb: "\<not> blank [0x20AC]" by (simp add: blank_def is_space_def)
  have nr: "\<not> in_script_range 0x20AC" by (simp add: in_script_range_def)
  show ?thesis using detect_script_tag_of_text[OF nb, of ascii_db] nb nr by auto
qed

section \<open>Properties of the field extractor\<close>

lemma map_of_dict_set: "map_of (dict_set k v d) = (map_of d)(k \<mapsto> v)"
  by (induction d) (auto simp: fun_eq_iff)

lemma map_of_fold_dict_set:
  "map_of (fold (\<lambda>f d. dict_set f (g f) d) fs d0) k
     = (if k \<in> set fs then Some (g k) else map_of d0 k)"
  by (induction fs arbitrary: d0) (auto simp: map_of_dict_set)

lemma extract_fields_lookup:
  "field \<in> set (all_fields sf en cu) \<Longrightarrow>
     map_of (extract_fields U H sf txt en cu) field = Some (field_result U H txt field)"
  by (simp add: extract_fields_def map_of_fold_dict_set)

lemma calculate_confidence_eq:
  "calculate_confidence H name val
     = (if val = [] then 0 else 85 / 100 + of_nat (H name mod 15) / 100)"
proof -
  have "H name mod 15 < 15" by simp
  then have "(of_nat (H name mod 15) :: rat) < 15" by (metis of_nat_less_iff of_nat_numeral)
  then have "85 / 100 + (of_nat (H name mod 15) :: rat) / 100 < 1" by simp
  then show ?thesis by (simp add: calculate_confidence_def Let_def min_def)
qed

subsection \<open>The matcher on the pattern of a label\<close>

lemma run_lits:
  "run U ic s (lits l) (i, g) =
     (if \<forall>k < length l. i + k < length s \<and> lit_match U ic (l ! k) (s ! (i + k))
      then [(i + length l, g)] else [])"
proof (induction l arbitrary: i)
  case Nil
  then show ?case by (simp add: lits_def rseq_def)
next
  case (Cons x l)
  have IH: "run U ic s (rseq (map Lit l)) (Suc i, g) =
     (if \<forall>k < length l. Suc i + k < length s \<and> lit_match U ic (l ! k) (s ! (Suc i + k))
      then [(Suc i + length l, g)] else [])"
    using Cons.IH[of "Suc i"] by (simp add: lits_def)
  have split: "(\<forall>k < Suc (length l). i + k < length s \<and> lit_match U ic ((x # l) ! k) (s ! (i + k)))
      \<longleftrightarrow> (i < length s \<and> lit_match U ic x (s ! i)
           \<and> (\<forall>k < length l. Suc i + k < length s \<and> lit_match U ic (l ! k) (s ! (Suc i + k))))"
    by (auto simp: less_Suc_eq_0_disj)
  have "run U ic s (lits (x # l)) (i, g) =
          (if i < length s \<and> lit_match U ic x (s ! i)
           then run U ic s (rseq (map Lit l)) (Suc i, g) else [])"
    by (auto simp: lits_def rseq_def)
  then show ?case
    unfolding IH using split by simp
qed

lemma run_star_cls:
  "run U ic s (Star (Cls n it)) (i, g) =
     (if i < length s \<and> cls_match U ic n it (s ! i)
      then run U ic s (Star (Cls n it)) (Suc i, g) @ [(i, g)] else [(i, g)])"
  by (subst run.simps(8)) auto

lemma star_cls_hd:
  "\<exists>e t. run U ic s (Star (Cls n it)) (i, g) = (e, g) # t \<and> i \<le> e
      \<and> (\<forall>k. i \<le> k \<and> k < e \<longrightarrow> k < length s \<and> cls_match U ic n it (s ! k))
      \<and> \<not> (e < length s \<and> cls_match U ic n it (s ! e))"
proof (induction "length s - i" arbitrary: i)
  case 0
  then have "\<not> i < length s" by simp
  then show ?case by (subst run_star_cls) auto
next
  case (Suc d)
  show ?case
  proof (cases "i < length s \<and> cls_match U ic n it (s ! i)")
    case True
    have "d = length s - Suc i" using Suc.hyps(2) by simp
    from Suc.hyps(1)[OF this] obtain e t where
      r: "run U ic s (Star (Cls n it)) (Suc i, g) = (e, g) # t" and le: "Suc i \<le> e"
      and mid: "\<forall>k. Suc i \<le> k \<and> k < e \<longrightarrow> k < length s \<and> cls_match U ic n it (s ! k)"
      and stop: "\<not> (e < length s \<and> cls_match U ic n it (s ! e))"
      by blast
    have "run U ic s (Star (Cls n it)) (i, g) = (e, g) # (t @ [(i, g)])"
      using True r by (subst run_star_cls) auto
    moreover have "\<forall>k. i \<le> k \<and> k < e \<longrightarrow> k < length s \<and> cls_match U ic n it (s ! k)"
      using mid True by (metis Suc_leI le_neq_implies_less)
    ultimately show ?thesis using le stop by auto
  next
    case False
    then have "run U ic s (Star (Cls n it)) (i, g) = [(i, g)]"
      by (subst run_star_cls) auto
    then show ?thesis using False by auto
  qed
qed

lemma star_cls_mem:
  "(e, g') \<in> set (run U ic s (Star (Cls n it)) (i, g)) \<Longrightarrow>
     g' = g \<and> i \<le> e \<and> (\<forall>k. i \<le> k \<and> k < e \<longrightarrow> k < length s \<and> cls_match U ic n it (s ! k))"
proof (induction "length s - i" arbitrary: i)
  case 0
  then have "\<not> i < length s" by simp
  then have "run U ic s (Star (Cls n it)) (i, g) = [(i, g)]" by (subst run_star_cls) auto
  then show ?case using "0.prems" by auto
next
  case (Suc d)
  show ?case
  proof (cases "i < length s \<and> cls_match U ic n it (s ! i)")
    case True
    have d: "d = length s - Suc i" using Suc.hyps(2) by simp
    have "run U ic s (Star (Cls n it)) (i, g) = run U ic s (Star (Cls n it)) (Suc i, g) @ [(i, g)]"
      using True by (subst run_star_cls) auto
    then consider "(e, g') \<in> set (run U ic s (Star (Cls n it)) (Suc i, g))" | "(e, g') = (i, g)"
      using Suc.prems by auto
    then show ?thesis
    proof cases
      case 1
      from Suc.hyps(1)[OF d 1] have
        "g' = g" "Suc i \<le> e"
        "\<forall>k. Suc i \<le> k \<and> k < e \<longrightarrow> k < length s \<and> cls_match U ic n it (s ! k)"
        by auto
      then show ?thesis using True by (metis Suc_leD Suc_leI le_neq_implies_less)
    next
      case 2
      then show ?thesis by auto
    qed
  next
    case False
    then have "run U ic s (Star (Cls n it)) (i, g) = [(i, g)]" by (subst run_star_cls) auto
    then show ?thesis using Suc.prems by auto
  qed
qed

lemma run_plus_cls:
  "run U ic s (Plus (Cls n it)) (i, g) =
     (if i < length s \<and> cls_match U ic n it (s ! i)
      then run U ic s (Star (Cls n it)) (Suc i, g) else [])"
  by (auto simp: Plus_def)

lemma concat_map_hd:
  "concat (map f xs) = y # ys \<Longrightarrow> \<exists>x \<in> set xs. \<exists>t. f x = y # t"
  by (induction xs) (auto simp: append_eq_Cons_conv)

lemma search_from_Some:
  "search_from U ic r s i = Some (k, m) \<Longrightarrow> \<exists>t. run U ic s r (k, None) = m # t"
proof (induction U ic r s i rule: search_from.induct)
  case (1 U ic r s i)
  show ?case
  proof (cases "run U ic s r (i, None)")
    case Nil
    then show ?thesis
      using "1.prems" "1.IH" by (subst (asm) search_from.simps) (auto split: if_splits)
  next
    case (Cons a t)
    then show ?thesis
      using "1.prems" by (subst (asm) search_from.simps) auto
  qed
qed

lemma field_pattern_match:
  assumes "re_search U True (field_pattern label) txt = Some m"
  shows "\<exists>i a b. m = (i, (b, Some (a, b))) \<and> label_match U txt label i a b
           \<and> group1 txt m = take (b - a) (drop a txt)"
proof -
  obtain i st where m: "m = (i, st)" by (cases m)
  let ?sep = "Cls False [CSpace, CChar 0x3A]"
  let ?nn = "Cls True [CChar 0x0A]"
  let ?tail = "Seq (Plus ?sep) (Grp (Plus ?nn))"
  from assms m obtain t where
    r: "run U True txt (field_pattern label) (i, None) = st # t"
    using search_from_Some[of U True "field_pattern label" "txt" 0 i st]
    by (auto simp: re_search_def)
  have lab: "\<forall>k < length label. lit_match U True (label ! k) (txt ! (i + k))"
    and r2: "run U True txt ?tail (i + length label, None) = st # t"
    using r by (auto simp: field_pattern_def run_lits split: if_splits)
  let ?j = "i + length label"
  have "concat (map (run U True txt (Grp (Plus ?nn))) (run U True txt (Plus ?sep) (?j, None))) = st # t"
    using r2 by simp
  from concat_map_hd[OF this] obtain x t' where
    x: "x \<in> set (run U True txt (Plus ?sep) (?j, None))"
    and gx: "run U True txt (Grp (Plus ?nn)) x = st # t'"
    by blast
  obtain a ga where xa: "x = (a, ga)" by (cases x)
  have sep0: "?j < length txt" "cls_match U True False [CSpace, CChar 0x3A] (txt ! ?j)"
    and xs: "(a, ga) \<in> set (run U True txt (Star ?sep) (Suc ?j, None))"
    using x xa by (auto simp: run_plus_cls split: if_splits)
  from star_cls_mem[OF xs] have ga: "ga = None" and ja: "Suc ?j \<le> a"
    and seps: "\<forall>k. Suc ?j \<le> k \<and> k < a \<longrightarrow> k < length txt \<and> cls_match U True False [CSpace, CChar 0x3A] (txt ! k)"
    by auto
  have allsep: "\<forall>k. ?j \<le> k \<and> k < a \<longrightarrow> is_sep U (txt ! k)"
    unfolding is_sep_def using seps sep0 by (metis Suc_leI le_neq_implies_less)
  have nn0: "a < length txt" "cls_match U True True [CChar 0x0A] (txt ! a)"
    and g2: "map (\<lambda>(b, _). (b, Some (a, b))) (run U True txt (Star ?nn) (Suc a, None)) = st # t'"
    using gx xa ga by (auto simp: run_plus_cls split: if_splits)
  from star_cls_hd[of U True "txt" True "[CChar 0x0A]" "Suc a" None] obtain b tt where
    sb: "run U True txt (Star ?nn) (Suc a, None) = (b, None) # tt" and ab: "Suc a \<le> b"
    and nns: "\<forall>k. Suc a \<le> k \<and> k < b \<longrightarrow> k < length txt \<and> cls_match U True True [CChar 0x0A] (txt ! k)"
    and stop: "\<not> (b < length txt \<and> cls_match U True True [CChar 0x0A] (txt ! b))"
    by blast
  have st: "st = (b, Some (a, b))" using g2 sb by simp
  have allnn: "\<forall>k. a \<le> k \<and> k < b \<longrightarrow> not_newline U (txt ! k)"
    unfolding not_newline_def using nns nn0 by (metis Suc_leI le_neq_implies_less)
  have ble: "b \<le> length txt"
  proof (cases "b = Suc a")
    case True
    then show ?thesis using nn0 by simp
  next
    case False
    then have "Suc a \<le> b - 1 \<and> b - 1 < b" using ab by simp
    then have "b - 1 < length txt" using nns by blast
    then show ?thesis by simp
  qed
  have fin: "b = length txt \<or> \<not> not_newline U (txt ! b)"
    unfolding not_newline_def using stop ble by auto
  have "label_match U txt label i a b"
    unfolding label_match_def using lab ja ab ble allsep allnn fin by auto
  moreover have "group1 txt m = take (b - a) (drop a txt)"
    using m st by (simp add: group1_def)
  ultimately show ?thesis using m st by blast
qed


lemma star_cls_complete:
  "i \<le> e \<Longrightarrow> \<forall>k. i \<le> k \<and> k < e \<longrightarrow> k < length s \<and> cls_match U ic n it (s ! k) \<Longrightarrow>
     (e, g) \<in> set (run U ic s (Star (Cls n it)) (i, g))"
proof (induction "e - i" arbitrary: i)
  case 0
  then have "e = i" by simp
  then show ?case by (subst run_star_cls) auto
next
  case (Suc d)
  then have lt: "i < e" by simp
  then have here: "i < length s \<and> cls_match U ic n it (s ! i)" using Suc.prems(2) by simp
  have "(e, g) \<in> set (run U ic s (Star (Cls n it)) (Suc i, g))"
  proof (rule Suc.hyps(1))
    show "d = e - Suc i" using Suc.hyps(2) by simp
    show "Suc i \<le> e" using lt by simp
    show "\<forall>k. Suc i \<le> k \<and> k < e \<longrightarrow> k < length s \<and> cls_match U ic n it (s ! k)"
      using Suc.prems(2) by simp
  qed
  then show ?case using here by (subst run_star_cls) auto
qed

lemma star_cls_nonempty: "run U ic s (Star (Cls n it)) (i, g) \<noteq> []"
  by (subst run_star_cls) auto

lemma concat_map_nonempty: "x \<in> set xs \<Longrightarrow> f x \<noteq> [] \<Longrightarrow> concat (map f xs) \<noteq> []"
  by (induction xs) auto

lemma search_from_None:
  "search_from U ic r s i = None \<Longrightarrow> i \<le> k \<Longrightarrow> k \<le> length s \<Longrightarrow> run U ic s r (k, None) = []"
proof (induction U ic r s i rule: search_from.induct)
  case (1 U ic r s i)
  have here: "run U ic s r (i, None) = []"
    using "1.prems"(1) by (subst (asm) search_from.simps) (auto split: list.splits)
  show ?case
  proof (cases "k = i")
    case True
    then show ?thesis using here by simp
  next
    case False
    then have lt: "i < length s" and k: "Suc i \<le> k" using "1.prems" by auto
    have "search_from U ic r s (Suc i) = None"
      using "1.prems"(1) here lt by (subst (asm) search_from.simps) simp
    then show ?thesis using "1.IH"[OF here lt _ k "1.prems"(3)] by simp
  qed
qed

lemma field_pattern_complete:
  assumes lm: "label_match U txt label i a b"
  shows "re_search U True (field_pattern label) txt \<noteq> None"
proof
  assume none: "re_search U True (field_pattern label) txt = None"
  let ?sep = "Cls False [CSpace, CChar 0x3A]"
  let ?nn = "Cls True [CChar 0x0A]"
  let ?j = "i + length label"
  have ja: "?j < a" and ab: "a < b" and bl: "b \<le> length txt"
    and lab: "\<forall>k < length label. lit_match U True (label ! k) (txt ! (i + k))"
    and seps: "\<forall>k. ?j \<le> k \<and> k < a \<longrightarrow> is_sep U (txt ! k)"
    and nns: "\<forall>k. a \<le> k \<and> k < b \<longrightarrow> not_newline U (txt ! k)"
    using lm by (auto simp: label_match_def)
  have il: "i \<le> length txt" using ja ab bl by simp
  have r0: "run U True txt (field_pattern label) (i, None) = []"
    using search_from_None[OF _ _ il, of U True "field_pattern label" 0] none
    by (simp add: re_search_def)
  have l1: "run U True txt (lits label) (i, None) = [(?j, None)]"
    using lab ja ab bl by (simp add: run_lits)
  have "(a, None) \<in> set (run U True txt (Star ?sep) (Suc ?j, None))"
  proof (rule star_cls_complete)
    show "Suc ?j \<le> a" using ja by simp
    show "\<forall>k. Suc ?j \<le> k \<and> k < a \<longrightarrow> k < length txt \<and> cls_match U True False [CSpace, CChar 0x3A] (txt ! k)"
      using seps ab bl by (auto simp: is_sep_def)
  qed
  moreover have "?j < length txt \<and> cls_match U True False [CSpace, CChar 0x3A] (txt ! ?j)"
    using seps ja ab bl by (auto simp: is_sep_def)
  ultimately have amem: "(a, None) \<in> set (run U True txt (Plus ?sep) (?j, None))"
    by (simp add: run_plus_cls)
  have "a < length txt \<and> cls_match U True True [CChar 0x0A] (txt ! a)"
    using nns ab bl by (auto simp: not_newline_def)
  then have "run U True txt (Grp (Plus ?nn)) (a, None) \<noteq> []"
    by (simp add: run_plus_cls star_cls_nonempty)
  then have "concat (map (run U True txt (Grp (Plus ?nn))) (run U True txt (Plus ?sep) (?j, None))) \<noteq> []"
    using amem by (rule concat_map_nonempty[rotated])
  then have "run U True txt (field_pattern label) (i, None) \<noteq> []"
    using l1 by (simp add: field_pattern_def)
  then show False using r0 by simp
qed

lemma field_pattern_None_iff:
  "re_search U True (field_pattern label) txt = None \<longleftrightarrow> \<not> (\<exists>i a b. label_match U txt label i a b)"
proof
  assume "re_search U True (field_pattern label) txt = None"
  then show "\<not> (\<exists>i a b. label_match U txt label i a b)"
    using field_pattern_complete by blast
next
  assume n: "\<not> (\<exists>i a b. label_match U txt label i a b)"
  show "re_search U True (field_pattern label) txt = None"
  proof (cases "re_search U True (field_pattern label) txt")
    case None
    then show ?thesis .
  next
    case (Some m)
    then show ?thesis using field_pattern_match[OF Some] n by blast
  qed
qed

lemmas field_eval = extract_fields_def all_fields_def field_result_def extract_field_def
  field_pattern_def calculate_confidence_def remove_spaces_def group1_def strip_def example_hash_def

lemma extract_name_age:
  "extract_fields ascii_db example_hash [] (cps ''Name: Bob'') (Some [cps ''Name'', cps ''Age'']) None
     = [(cps ''Name'', \<lparr> f_value = cps ''Bob'', f_confidence = 99 / 100, found = True \<rparr>),
        (cps ''Age'', \<lparr> f_value = [], f_confidence = 0, found = False \<rparr>)]"
  by (simp add: field_eval regex_eval)

subsection \<open>The three patterns of a field\<close>

text \<open>
  Claim C8.  For every text and field name, the extracted value is decided by three
  patterns tried in order: the one of the label as given, the one of the lower-cased
  label and the one of the label without spaces; the first that is found in the text
  gives its group, trimmed of surrounding whitespace.  A pattern is found exactly when
  some position of the text carries the label (without regard to case) followed by one
  or more characters of \<^verbatim>\<open>[\s:]\<close> and a non-empty value, and its group is that value
  up to the end of the line.  When none of the three is found the result of the field has
  the empty value and \<open>found\<close> false.  The result of every requested field is stored
  under its name.
\<close>

theorem extract_field_patterns:
  "extract_field U txt name =
     (case re_search U True (field_pattern name) txt of
        Some m \<Rightarrow> strip (group1 txt m)
      | None \<Rightarrow>
         (case re_search U True (field_pattern (str_lower U name)) txt of
            Some m \<Rightarrow> strip (group1 txt m)
          | None \<Rightarrow>
             (case re_search U True (field_pattern (remove_spaces name)) txt of
                Some m \<Rightarrow> strip (group1 txt m)
              | None \<Rightarrow> [])))
   \<and> (\<forall>label. (re_search U True (field_pattern label) txt = None)
                 = (\<not> (\<exists>i a b. label_match U txt label i a b)))
   \<and> (\<forall>label m. re_search U True (field_pattern label) txt = Some m \<longrightarrow>
         (\<exists>i a b. label_match U txt label i a b \<and> group1 txt m = take (b - a) (drop a txt)))
   \<and> f_value (field_result U H txt name) = extract_field U txt name
   \<and> (re_search U True (field_pattern name) txt = None
        \<and> re_search U True (field_pattern (str_lower U name)) txt = None
        \<and> re_search U True (field_pattern (remove_spaces name)) txt = None
      \<longrightarrow> f_value (field_result U H txt name) = [] \<and> \<not> found (field_result U H txt name))
   \<and> (name \<in> set (all_fields sf en cu) \<longrightarrow>
        map_of (extract_fields U H sf txt en cu) name = Some (field_result U H txt name))"
proof -
  have 1: "extract_field U txt name =
     (case re_search U True (field_pattern name) txt of
        Some m \<Rightarrow> strip (group1 txt m)
      | None \<Rightarrow>
         (case re_search U True (field_pattern (str_lower U name)) txt of
            Some m \<Rightarrow> strip (group1 txt m)
          | None \<Rightarrow>
             (case re_search U True (field_pattern (remove_spaces name)) txt of
                Some m \<Rightarrow> strip (group1 txt m)
              | None \<Rightarrow> [])))"
    by (simp add: extract_field_def Let_def split: option.splits)
  have 2: "\<forall>label. (re_search U True (field_pattern label) txt = None)
                 = (\<not> (\<exists>i a b. label_match U txt label i a b))"
    using field_pattern_None_iff by blast
  have 3: "\<forall>label m. re_search U True (field_pattern label) txt = Some m \<longrightarrow>
         (\<exists>i a b. label_match U txt label i a b \<and> group1 txt m = take (b - a) (drop a txt))"
    using field_pattern_match by blast
  have 4: "f_value (field_result U H txt name) = extract_field U txt name"
    by (simp add: field_result_def Let_def)
  have 5: "re_search U True (field_pattern name) txt = None
        \<and> re_search U True (field_pattern (str_lower U name)) txt = None
        \<and> re_search U True (field_pattern (remove_spaces name)) txt = None
      \<longrightarrow> f_value (field_result U H txt name) = [] \<and> \<not> found (field_result U H txt name)"
    by (simp add: field_result_def Let_def extract_field_def)
  have 6: "name \<in> set (all_fields sf en cu) \<longrightarrow>
        map_of (extract_fields U H sf txt en cu) name = Some (field_result U H txt name)"
    using extract_fields_lookup by blast
  show ?thesis using 1 2 3 4 5 6 by blast
qed

theorem extract_field_patterns_witness:
  "re_search ascii_db True (field_pattern (cps ''Due Date'')) (cps ''duedate: 5 '') = None
   \<and> re_search ascii_db True (field_pattern (str_lower ascii_db (cps ''Due Date''))) (cps ''duedate: 5 '') = None
   \<and> re_search ascii_db True (field_pattern (remove_spaces (cps ''Due Date''))) (cps ''duedate: 5 '')
        = Some (0, 11, Some (9, 11))
   \<and> group1 (cps ''duedate: 5 '') (0, 11, Some (9, 11)) = cps ''5 ''
   \<and> (\<exists>i a b. label_match ascii_db (cps ''duedate: 5 '') (remove_spaces (cps ''Due Date'')) i a b
          \<and> cps ''5 '' = take (b - a) (drop a (cps ''duedate: 5 '')))
   \<and> extract_field ascii_db (cps ''duedate: 5 '') (cps ''Due Date'') = cps ''5''
   \<and> re_search ascii_db True (field_pattern (cps ''Age'')) (cps ''Name: Bob'') = None
   \<and> re_search ascii_db True (field_pattern (str_lower ascii_db (cps ''Age''))) (cps ''Name: Bob'') = None
   \<and> re_search ascii_db True (field_pattern (remove_spaces (cps ''Age''))) (cps ''Name: Bob'') = None
   \<and> f_value (field_result ascii_db example_hash (cps ''Name: Bob'') (cps ''Age'')) = []
   \<and> \<not> found (field_result ascii_db example_hash (cps ''Name: Bob'') (cps ''Age''))
   \<and> cps ''Age'' \<in> set (all_fields [] (Some [cps ''Name'', cps ''Age'']) None)
   \<and> map_of (extract_fields ascii_db example_hash [] (cps ''Name: Bob'')
                (Some [cps ''Name'', cps ''Age'']) None) (cps ''Age'')
        = Some (field_result ascii_db example_hash (cps ''Name: Bob'') (cps ''Age''))"
proof -
  let ?t = "cps ''duedate: 5 ''"
  have a1: "re_search ascii_db True (field_pattern (cps ''Due Date'')) ?t = None"
    by (simp add: field_pattern_def regex_eval)
  have a2: "re_search ascii_db True (field_pattern (str_lower ascii_db (cps ''Due Date''))) ?t = None"
    by (simp add: field_pattern_def regex_eval)
  have a3: "re_search ascii_db True (field_pattern (remove_spaces (cps ''Due Date''))) ?t
        = Some (0, 11, Some (9, 11))"
    by (simp add: field_pattern_def remove_spaces_def regex_eval)
  have g: "group1 ?t (0, 11, Some (9, 11)) = cps ''5 ''"
    by (simp add: group1_def cps_def)
  have s: "strip (cps ''5 '') = cps ''5''"
    by (simp add: strip_def cps_def is_space_def)
  have b1: "re_search ascii_db True (field_pattern (cps ''Age'')) (cps ''Name: Bob'') = None"
    by (simp add: field_pattern_def regex_eval)
  have b2: "re_search ascii_db True (field_pattern (str_lower ascii_db (cps ''Age''))) (cps ''Name: Bob'') = None"
    by (simp add: field_pattern_def regex_eval)
  have b3: "re_search ascii_db True (field_pattern (remove_spaces (cps ''Age''))) (cps ''Name: Bob'') = None"
    by (simp add: field_pattern_def remove_spaces_def regex_eval)
  have m: "cps ''Age'' \<in> set (all_fields [] (Some [cps ''Name'', cps ''Age'']) None)"
    by (simp add: all_fields_def)
  note T1 = extract_field_patterns[of ascii_db ?t "cps ''Due Date''" example_hash "[]" None None]
  note T2 = extract_field_patterns[of ascii_db "cps ''Name: Bob''" "cps ''Age''" example_hash "[]"
              "Some [cps ''Name'', cps ''Age'']" None]
  have lm: "\<exists>i a b. label_match ascii_db ?t (remove_spaces (cps ''Due Date'')) i a b
                \<and> cps ''5 '' = take (b - a) (drop a ?t)"
    using T1 a3 g by (metis (no_types, lifting))
  have e: "extract_field ascii_db ?t (cps ''Due Date'') = cps ''5''"
    using T1 a1 a2 a3 g s by simp
  show ?thesis using T2 a1 a2 a3 g lm e b1 b2 b3 m by simp
qed


subsection \<open>The confidence of a field\<close>

text \<open>
  Claim C9.  For every field name and extracted value, the confidence is
  \<open>0.85 + (stable_hash field_name mod 15) / 100\<close> when the field is found (the value is
  not empty), which lies in \<open>[0.85, 1)\<close>, and \<open>0\<close> when it is not found; this is the
  confidence of the result stored for the field.
\<close>

theorem field_confidence_formula:
  "calculate_confidence H name val
     = (if val \<noteq> [] then 85 / 100 + of_nat (H name mod 15) / 100 else 0)
   \<and> (val \<noteq> [] \<longrightarrow> 85 / 100 \<le> calculate_confidence H name val
                   \<and> calculate_confidence H name val < 1)
   \<and> (found (field_result U H txt name) \<longleftrightarrow> f_value (field_result U H txt name) \<noteq> [])
   \<and> f_confidence (field_result U H txt name)
       = (if found (field_result U H txt name)
          then 85 / 100 + of_nat (H name mod 15) / 100 else 0)
   \<and> (name \<in> set (all_fields sf en cu) \<longrightarrow>
        map_of (extract_fields U H sf txt en cu) name = Some (field_result U H txt name))"
proof -
  have "H name mod 15 < 15" by simp
  then have "(of_nat (H name mod 15) :: rat) < 15" by (metis of_nat_less_iff of_nat_numeral)
  then have b: "85 / 100 + (of_nat (H name mod 15) :: rat) / 100 < 1" by simp
  have c: "(85 :: rat) / 100 \<le> 85 / 100 + of_nat (H name mod 15) / 100" by simp
  show ?thesis
    using b c extract_fields_lookup[of name sf en cu U H "txt"]
    by (simp add: calculate_confidence_eq field_result_def Let_def)
qed

theorem field_confidence_formula_witness:
  "extract_fields ascii_db example_hash [] (cps ''Name: Bob'') (Some [cps ''Name'', cps ''Age'']) None
     = [(cps ''Name'', \<lparr> f_value = cps ''Bob'', f_confidence = 99 / 100, found = True \<rparr>),
        (cps ''Age'', \<lparr> f_value = [], f_confidence = 0, found = False \<rparr>)]
   \<and> cps ''Name'' \<in> set (all_fields [] (Some [cps ''Name'', cps ''Age'']) None)
   \<and> cps ''Bob'' \<noteq> []
   \<and> example_hash (cps ''Name'') mod 15 = 14
   \<and> calculate_confidence example_hash (cps ''Name'') (cps ''Bob'') = 85 / 100 + 14 / 100
   \<and> map_of (extract_fields ascii_db example_hash [] (cps ''Name: Bob'')
                (Some [cps ''Name'', cps ''Age'']) None) (cps ''Name'')
        = Some (field_result ascii_db example_hash (cps ''Name: Bob'') (cps ''Name''))
   \<and> f_confidence (field_result ascii_db example_hash (cps ''Name: Bob'') (cps ''Name'')) = 99 / 100
   \<and> calculate_confidence example_hash (cps ''Age'') [] = 0"
proof -
  have m: "cps ''Name'' \<in> set (all_fields [] (Some [cps ''Name'', cps ''Age'']) None)"
    by (simp add: all_fields_def)
  have n: "cps ''Bob'' \<noteq> []" by (simp add: cps_def)
  have h: "example_hash (cps ''Name'') mod 15 = 14" by (simp add: example_hash_def)
  note T = field_confidence_formula[of example_hash "cps ''Name''" "cps ''Bob''" ascii_db
             "cps ''Name: Bob''" "[]" "Some [cps ''Name'', cps ''Age'']" None]
  note T0 = field_confidence_formula[of example_hash "cps ''Age''" "[]" ascii_db
             "cps ''Name: Bob''" "[]" "Some [cps ''Name'', cps ''Age'']" None]
  have look: "map_of (extract_fields ascii_db example_hash [] (cps ''Name: Bob'')
                (Some [cps ''Name'', cps ''Age'']) None) (cps ''Name'')
        = Some (field_result ascii_db example_hash (cps ''Name: Bob'') (cps ''Name''))"
    using T m by blast
  have fc: "f_confidence (field_result ascii_db example_hash (cps ''Name: Bob'') (cps ''Name'')) = 99 / 100"
  proof -
    have "field_result ascii_db example_hash (cps ''Name: Bob'') (cps ''Name'')
            = \<lparr> f_value = cps ''Bob'', f_confidence = 99 / 100, found = True \<rparr>"
      using look by (simp add: extract_name_age)
    then show ?thesis by simp
  qed
  have cc: "calculate_confidence example_hash (cps ''Name'') (cps ''Bob'') = 85 / 100 + 14 / 100"
    using T n h by simp
  have c0: "calculate_confidence example_hash (cps ''Age'') [] = 0"
    using T0 by simp
  show ?thesis using extract_name_age m n h cc look fc c0 by simp
qed

end
